theory Spec2Isabelle
  imports Main "HOL-Library.Monad_Syntax" "HOL-Library.Sublist"
begin

section \<open>AliasForge: username candidates from name and date fields\<close>

text \<open>
  A shallow embedding of \<^verbatim>\<open>src/aliasforge.py\<close>: the helpers \<^verbatim>\<open>ini\<close>,
  \<^verbatim>\<open>low\<close>, \<^verbatim>\<open>trim\<close> and \<^verbatim>\<open>parse_dates\<close>, and the two generators
  \<^verbatim>\<open>generate_chinese\<close> and \<^verbatim>\<open>generate_western\<close>.

  A Python \<^verbatim>\<open>str\<close> is modelled as a \<open>string\<close> whose characters are the code points
  0 to 255 (Latin-1); \<open>length\<close> counts code points, as Python's \<^verbatim>\<open>len\<close> does.
  Subscripting (\<^verbatim>\<open>s[0]\<close>, \<^verbatim>\<open>parts[1]\<close>) is the only operation of the source that
  can raise on string inputs; it is modelled by \<open>subscript\<close>, whose result \<open>None\<close>
  stands for Python's \<^verbatim>\<open>IndexError\<close>, and every function that subscripts returns an
  \<open>option\<close>.
\<close>

subsection \<open>Constants and string primitives\<close>

definition MIN_LEN :: int where
  "MIN_LEN = 6"

definition MAX_LEN_CN :: int where
  "MAX_LEN_CN = 16"

definition MAX_LEN_EN :: int where
  "MAX_LEN_EN = 18"

text \<open>
  \<^verbatim>\<open>str.isspace\<close> on the code points below 256: TAB to CR, FS to US, the space,
  NEL (133) and the no-break space (160). \<^verbatim>\<open>str.strip()\<close> and \<^verbatim>\<open>str.split()\<close>
  without arguments use this class.
\<close>

definition isspace :: "char \<Rightarrow> bool" where
  "isspace c =
     (let n = (of_char c :: nat)
      in (9 \<le> n \<and> n \<le> 13) \<or> (28 \<le> n \<and> n \<le> 32) \<or> n = 133 \<or> n = 160)"

text \<open>
  \<^verbatim>\<open>str.lower\<close> on one code point below 256: A-Z and the Latin-1 capitals
  (192 to 222 without the multiplication sign 215) move up by 32.
\<close>

definition lower_char :: "char \<Rightarrow> char" where
  "lower_char c =
     (let n = (of_char c :: nat)
      in if (65 \<le> n \<and> n \<le> 90) \<or> (192 \<le> n \<and> n \<le> 222 \<and> n \<noteq> 215)
         then char_of (n + 32) else c)"

text \<open>\<^verbatim>\<open>def low(s): return s.lower()\<close>\<close>

definition low :: "string \<Rightarrow> string" where
  "low s = map lower_char s"

text \<open>\<^verbatim>\<open>s.strip()\<close>: whitespace removed at both ends.\<close>

definition strip :: "string \<Rightarrow> string" where
  "strip x = rev (dropWhile isspace (rev (dropWhile isspace x)))"

text \<open>\<^verbatim>\<open>xs[i]\<close> for an index \<open>i \<ge> 0\<close>; \<open>None\<close> is \<^verbatim>\<open>IndexError\<close>.\<close>

definition subscript :: "'a list \<Rightarrow> nat \<Rightarrow> 'a option" where
  "subscript xs i = (if i < length xs then Some (xs ! i) else None)"

text \<open>The slice \<^verbatim>\<open>s[-n:]\<close> for \<open>n > 0\<close>: the last \<open>n\<close> characters, all of \<open>s\<close> when it is shorter.\<close>

definition last_n :: "nat \<Rightarrow> string \<Rightarrow> string" where
  "last_n n s = drop (length s - n) s"

text \<open>
  \<^verbatim>\<open>s.zfill(width)\<close>: zeros on the left up to \<open>width\<close>; a leading sign stays in
  front of the zeros; a string that is long enough is returned as it is.
\<close>

definition zfill :: "nat \<Rightarrow> string \<Rightarrow> string" where
  "zfill width s =
     (if width \<le> length s then s
      else case s of
             [] \<Rightarrow> replicate width CHR ''0''
           | c # cs \<Rightarrow>
               if c = CHR ''+'' \<or> c = CHR ''-''
               then c # replicate (width - length s) CHR ''0'' @ cs
               else replicate (width - length s) CHR ''0'' @ s)"

text \<open>\<^verbatim>\<open>s.replace(old, new)\<close> for one-character \<open>old\<close> and \<open>new\<close>.\<close>

definition replace_char :: "char \<Rightarrow> char \<Rightarrow> string \<Rightarrow> string" where
  "replace_char old new s = map (\<lambda>c. if c = old then new else c) s"

text \<open>
  \<^verbatim>\<open>s.split(sep)\<close> for a one-character separator: the pieces between the separators,
  empty pieces kept, so the empty string gives one empty piece.
\<close>

fun split_on :: "char \<Rightarrow> string \<Rightarrow> string list" where
  "split_on sep [] = [[]]"
| "split_on sep (c # cs) =
     (if c = sep then [] # split_on sep cs
      else case split_on sep cs of
             [] \<Rightarrow> [[c]]
           | w # ws \<Rightarrow> (c # w) # ws)"

text \<open>
  \<^verbatim>\<open>s.split()\<close>: the maximal runs of non-whitespace characters. \<open>cur\<close> is the word
  being read.
\<close>

fun split_ws_from :: "string \<Rightarrow> string \<Rightarrow> string list" where
  "split_ws_from cur [] = (if cur = [] then [] else [cur])"
| "split_ws_from cur (c # cs) =
     (if isspace c
      then (if cur = [] then split_ws_from [] cs else cur # split_ws_from [] cs)
      else split_ws_from (cur @ [c]) cs)"

definition split_ws :: "string \<Rightarrow> string list" where
  "split_ws s = split_ws_from [] s"

subsection \<open>Helpers\<close>

text \<open>\<^verbatim>\<open>def ini(s): return s[0].lower() if s else ""\<close>\<close>

definition ini :: "string \<Rightarrow> string option" where
  "ini s = (if s \<noteq> [] then map_option (\<lambda>c. low [c]) (subscript s 0) else Some [])"

text \<open>
  \<^verbatim>\<open>trim\<close> (lines 33 to 41): the loop over \<open>lst\<close> with its two variables, the set
  \<open>seen\<close> and the list \<open>result\<close>.
\<close>

fun trim_loop :: "string list \<Rightarrow> int \<Rightarrow> string set \<Rightarrow> string list \<Rightarrow> string list" where
  "trim_loop [] maxlen seen result = result"
| "trim_loop (x # lst) maxlen seen result =
     (let x' = strip x
      in if x' \<noteq> [] \<and> MIN_LEN \<le> int (length x') \<and> int (length x') \<le> maxlen \<and> x' \<notin> seen
         then trim_loop lst maxlen (insert x' seen) (result @ [x'])
         else trim_loop lst maxlen seen result)"

definition trim :: "string list \<Rightarrow> int \<Rightarrow> string list" where
  "trim lst maxlen = trim_loop lst maxlen {} []"

text \<open>
  \<^verbatim>\<open>parse_dates\<close> (lines 43 to 63). \<open>dob_parts\<close> is line 54,
  \<^verbatim>\<open>dob.strip().replace("-", "/").split("/")\<close>. The result is \<open>(yr4, yr2, dy2, md)\<close>.
\<close>

definition dob_parts :: "string \<Rightarrow> string list" where
  "dob_parts dob = split_on CHR ''/'' (replace_char CHR ''-'' CHR ''/'' (strip dob))"

definition parse_dates :: "string \<Rightarrow> string \<Rightarrow> (string \<times> string \<times> string \<times> string) option" where
  "parse_dates year dob =
     (let yr4 = (if year \<noteq> [] then last_n 4 (strip year) else []);
          yr2 = (if year \<noteq> [] then last_n 2 yr4 else [])
      in if dob \<noteq> [] then
           (let parts = dob_parts dob
            in if length parts = 3 then
                 do {
                   (yr4', yr2') \<leftarrow>
                     (if yr4 = [] then do { p0 \<leftarrow> subscript parts 0; Some (p0, last_n 2 p0) }
                      else Some (yr4, yr2));
                   p1 \<leftarrow> subscript parts 1;
                   p2 \<leftarrow> subscript parts 2;
                   let mo = zfill 2 p1;
                   let dy = zfill 2 p2;
                   Some (yr4', yr2', last_n 2 dy, mo @ dy)
                 }
               else Some (yr4, yr2, [], []))
         else Some (yr4, yr2, [], []))"

text \<open>
  Lines 144 and 439, \<^verbatim>\<open>dates = [x for x in [yr4, yr2, md, dy2] if x]\<close>: the date
  suffixes both generators loop over.
\<close>

fun date_list :: "string \<times> string \<times> string \<times> string \<Rightarrow> string list" where
  "date_list (yr4, yr2, dy2, md) = filter (\<lambda>x. x \<noteq> []) [yr4, yr2, md, dy2]"


subsection \<open>Chinese name generator\<close>

text \<open>
  The tokens of \<^verbatim>\<open>generate_chinese\<close> that its tiers read (lines 123 to 144):
  \<open>s\<close> surname, \<open>a\<close> alias, \<open>a2\<close> second alias, \<open>g\<close> full given name, \<open>g2\<close> second
  given word, their initials, and the date suffixes.
\<close>

record cn_tokens =
  cn_s :: string
  cn_a :: string
  cn_a2 :: string
  cn_g :: string
  cn_g2 :: string
  cn_si :: string
  cn_gi :: string
  cn_ai :: string
  cn_init_sg :: string
  cn_init_as :: string
  cn_init_asg :: string
  cn_yr2 :: string
  cn_dy2 :: string
  cn_dates :: "string list"

definition chinese_tokens ::
  "string \<Rightarrow> string \<Rightarrow> string \<Rightarrow> string \<Rightarrow> string \<Rightarrow> string \<Rightarrow> cn_tokens option" where
  "chinese_tokens last' first' alias alias2 year dob =
     do {
       let s = low (strip last');
       let a = (if alias \<noteq> [] then low (strip alias) else []);
       let a2 = (if alias2 \<noteq> [] then low (strip alias2) else []);
       let gparts = split_ws (low (strip first'));
       g1 \<leftarrow> (if 1 \<le> length gparts then subscript gparts 0 else Some []);
       g2 \<leftarrow> (if 2 \<le> length gparts then subscript gparts 1 else Some []);
       let g = g1 @ g2;
       si \<leftarrow> ini s;
       g1i \<leftarrow> ini g1;
       g2i \<leftarrow> (if g2 \<noteq> [] then ini g2 else Some []);
       let gi = g1i @ g2i;
       ai \<leftarrow> (if a \<noteq> [] then ini a else Some []);
       let init_sg = si @ gi;
       let init_as = (if ai \<noteq> [] then ai @ si else []);
       let init_asg = (if ai \<noteq> [] then ai @ init_sg else []);
       dt \<leftarrow> parse_dates year dob;
       Some \<lparr>cn_s = s, cn_a = a, cn_a2 = a2, cn_g = g, cn_g2 = g2, cn_si = si, cn_gi = gi,
             cn_ai = ai, cn_init_sg = init_sg, cn_init_as = init_as, cn_init_asg = init_asg,
             cn_yr2 = fst (snd dt), cn_dy2 = fst (snd (snd dt)), cn_dates = date_list dt\<rparr>
     }"

text \<open>Tier 1 (lines 151 to 172): alias alone with dates and initials.\<close>

definition cn_tier1 :: "cn_tokens \<Rightarrow> string list" where
  "cn_tier1 tk =
     (let a = cn_a tk; s = cn_s tk; si = cn_si tk; ai = cn_ai tk;
          dy2 = cn_dy2 tk; yr2 = cn_yr2 tk; dates = cn_dates tk
      in if a \<noteq> [] then
           map (\<lambda>d. a @ d) dates
           @ (if dy2 \<noteq> [] \<and> yr2 \<noteq> [] then [a @ dy2 @ yr2] else [])
           @ [a @ si, a @ ''.'' @ si, si @ ''.'' @ a]
           @ [cn_init_as tk, cn_init_asg tk, ai @ ''.'' @ s]
         else [])"

text \<open>Tier 2 (lines 177 to 187): alias with the full given name.\<close>

definition cn_tier2 :: "cn_tokens \<Rightarrow> string list" where
  "cn_tier2 tk =
     (let a = cn_a tk; g = cn_g tk; dates = cn_dates tk
      in if a \<noteq> [] then
           [a @ g, a @ ''.'' @ g, g @ ''.'' @ a]
           @ concat (map (\<lambda>d. [a @ g @ d, a @ ''.'' @ g @ d]) dates)
         else [])"

text \<open>Tier 3 (lines 192 to 202): alias with \<open>init_sg\<close>.\<close>

definition cn_tier3 :: "cn_tokens \<Rightarrow> string list" where
  "cn_tier3 tk =
     (let a = cn_a tk; init_sg = cn_init_sg tk; dates = cn_dates tk
      in if a \<noteq> [] then
           [a @ init_sg, a @ ''.'' @ init_sg, init_sg @ ''.'' @ a]
           @ concat (map (\<lambda>d. [a @ init_sg @ d, a @ ''.'' @ init_sg @ d]) dates)
         else [])"

text \<open>Tier 4 (lines 207 to 217): alias with the surname.\<close>

definition cn_tier4 :: "cn_tokens \<Rightarrow> string list" where
  "cn_tier4 tk =
     (let a = cn_a tk; s = cn_s tk; dates = cn_dates tk
      in if a \<noteq> [] then
           [a @ s, a @ ''.'' @ s, s @ ''.'' @ a]
           @ concat (map (\<lambda>d. [a @ s @ d, a @ ''.'' @ s @ d]) dates)
         else [])"

text \<open>Tier 5 (lines 222 to 236): the second given word alone.\<close>

definition cn_tier5 :: "cn_tokens \<Rightarrow> string list" where
  "cn_tier5 tk =
     (let g2 = cn_g2 tk; si = cn_si tk; dy2 = cn_dy2 tk; yr2 = cn_yr2 tk; dates = cn_dates tk
      in if g2 \<noteq> [] then
           map (\<lambda>d. g2 @ d) dates
           @ (if dy2 \<noteq> [] \<and> yr2 \<noteq> [] then [g2 @ dy2 @ yr2] else [])
           @ [g2 @ si, g2 @ ''.'' @ si, si @ ''.'' @ g2]
           @ concat (map (\<lambda>d. [g2 @ si @ d, g2 @ ''.'' @ si @ d]) dates)
         else [])"

text \<open>Tier 6 (lines 241 to 272): the second given word with given name, initials, surname.\<close>

definition cn_tier6 :: "cn_tokens \<Rightarrow> string list" where
  "cn_tier6 tk =
     (let g2 = cn_g2 tk; g = cn_g tk; s = cn_s tk; init_sg = cn_init_sg tk; dates = cn_dates tk
      in if g2 \<noteq> [] then
           [g2 @ g, g2 @ ''.'' @ g]
           @ concat (map (\<lambda>d. [g2 @ g @ d, g2 @ ''.'' @ g @ d]) dates)
           @ [g2 @ init_sg, g2 @ ''.'' @ init_sg, init_sg @ ''.'' @ g2]
           @ concat (map (\<lambda>d. [g2 @ init_sg @ d, g2 @ ''.'' @ init_sg @ d]) dates)
           @ [g2 @ s, g2 @ ''.'' @ s, s @ ''.'' @ g2]
           @ concat (map (\<lambda>d. [g2 @ s @ d, g2 @ ''.'' @ s @ d]) dates)
         else [])"

text \<open>Tier 7 (lines 277 to 286): given name with the surname initial.\<close>

definition cn_tier7 :: "cn_tokens \<Rightarrow> string list" where
  "cn_tier7 tk =
     (let g = cn_g tk; si = cn_si tk; dates = cn_dates tk
      in [g @ si, g @ ''.'' @ si, si @ ''.'' @ g]
         @ concat (map (\<lambda>d. [g @ si @ d, g @ ''.'' @ si @ d]) dates))"

text \<open>Tier 8 (lines 291 to 292): given name with a date.\<close>

definition cn_tier8 :: "cn_tokens \<Rightarrow> string list" where
  "cn_tier8 tk = map (\<lambda>d. cn_g tk @ d) (cn_dates tk)"

text \<open>Tier 9 (lines 297 to 306): surname with the given initials.\<close>

definition cn_tier9 :: "cn_tokens \<Rightarrow> string list" where
  "cn_tier9 tk =
     (let s = cn_s tk; gi = cn_gi tk; init_sg = cn_init_sg tk; dates = cn_dates tk
      in [s @ gi, init_sg, s @ ''.'' @ gi]
         @ concat (map (\<lambda>d. [s @ gi @ d, init_sg @ d]) dates))"

text \<open>Tier 10 (lines 311 to 314): surname and given name in both orders.\<close>

definition cn_tier10 :: "cn_tokens \<Rightarrow> string list" where
  "cn_tier10 tk = [cn_s tk @ cn_g tk, cn_g tk @ cn_s tk]"

text \<open>The second alias (lines 317 to 320).\<close>

definition cn_alias2 :: "cn_tokens \<Rightarrow> string list" where
  "cn_alias2 tk =
     (let a = cn_a tk; a2 = cn_a2 tk; g = cn_g tk; s = cn_s tk; dates = cn_dates tk
      in if a2 \<noteq> [] then
           [a2 @ g, a2 @ s, g @ ''.'' @ a2, (if a \<noteq> [] then a @ ''.'' @ a2 else [])]
           @ concat (map (\<lambda>d. [a2 @ d, a2 @ g @ d]) dates)
         else [])"

text \<open>Everything appended before the \<^verbatim>\<open>if full:\<close> of line 325, in the order of the source.\<close>

definition chinese_default :: "cn_tokens \<Rightarrow> string list" where
  "chinese_default tk =
     cn_tier1 tk @ cn_tier2 tk @ cn_tier3 tk @ cn_tier4 tk @ cn_tier5 tk @ cn_tier6 tk
     @ cn_tier7 tk @ cn_tier8 tk @ cn_tier9 tk @ cn_tier10 tk @ cn_alias2 tk"

text \<open>Full mode, alias block (lines 327 to 343).\<close>

definition cn_full_alias :: "cn_tokens \<Rightarrow> string list" where
  "cn_full_alias tk =
     (let a = cn_a tk; ai = cn_ai tk; g = cn_g tk; s = cn_s tk; si = cn_si tk;
          gi = cn_gi tk; init_sg = cn_init_sg tk; dates = cn_dates tk
      in if a \<noteq> [] then
           concat (map (\<lambda>d. [a @ g @ si @ d, a @ ''.'' @ g @ ''.'' @ si @ d, ai @ g @ d,
                              ai @ ''.'' @ g @ d, ai @ init_sg @ d]) dates)
           @ [ai @ g, ai @ ''.'' @ g, ai @ init_sg, a @ ''.'' @ s @ ''.'' @ g, a @ gi,
              a @ ''.'' @ gi]
         else [])"

text \<open>Full mode, given name with dotted dates and the surname dot block (lines 346 to 358).\<close>

definition cn_full_given :: "cn_tokens \<Rightarrow> string list" where
  "cn_full_given tk =
     (let g = cn_g tk; si = cn_si tk; dates = cn_dates tk
      in concat (map (\<lambda>d. [g @ ''.'' @ d, g @ ''.'' @ si @ ''.'' @ d]) dates))"

definition cn_full_surname :: "cn_tokens \<Rightarrow> string list" where
  "cn_full_surname tk =
     (let s = cn_s tk; g = cn_g tk; init_sg = cn_init_sg tk
      in [s @ ''.'' @ g, g @ ''.'' @ s, s @ ''.'' @ init_sg, init_sg @ ''.'' @ s])"

text \<open>Full mode, second given word (lines 361 to 385).\<close>

definition cn_full_g2 :: "cn_tokens \<Rightarrow> string list" where
  "cn_full_g2 tk =
     (let a = cn_a tk; ai = cn_ai tk; g = cn_g tk; g2 = cn_g2 tk; si = cn_si tk;
          gi = cn_gi tk; dates = cn_dates tk
      in if g2 \<noteq> [] then
           concat (map (\<lambda>d. [g2 @ g @ si @ d, (if a \<noteq> [] then ai @ g2 @ d else []),
                              g2 @ ''.'' @ g @ ''.'' @ si]) dates)
           @ [g2 @ ''.'' @ g @ si, g2 @ gi, g2 @ ''.'' @ gi,
              (if a \<noteq> [] then ai @ g2 else []), (if a \<noteq> [] then ai @ ''.'' @ g2 else [])]
           @ (if a \<noteq> [] then
                [a @ g2, a @ ''.'' @ g2]
                @ concat (map (\<lambda>d. [a @ g2 @ d, a @ ''.'' @ g2 @ d, a @ g2 @ si @ d]) dates)
              else [])
         else [])"

text \<open>Full mode, second alias (lines 388 to 391).\<close>

definition cn_full_alias2 :: "cn_tokens \<Rightarrow> string list" where
  "cn_full_alias2 tk =
     (let a2 = cn_a2 tk; g = cn_g tk; s = cn_s tk; init_sg = cn_init_sg tk; dates = cn_dates tk
      in if a2 \<noteq> [] then
           concat (map (\<lambda>d. [a2 @ d, a2 @ ''.'' @ d, a2 @ g @ d]) dates)
           @ [a2 @ ''.'' @ g, a2 @ ''.'' @ s, a2 @ init_sg]
         else [])"

definition chinese_full :: "cn_tokens \<Rightarrow> string list" where
  "chinese_full tk =
     cn_full_alias tk @ cn_full_given tk @ cn_full_surname tk @ cn_full_g2 tk @ cn_full_alias2 tk"

text \<open>The list \<^verbatim>\<open>combos\<close> when line 393 is reached.\<close>

definition chinese_combos :: "cn_tokens \<Rightarrow> bool \<Rightarrow> string list" where
  "chinese_combos tk full = chinese_default tk @ (if full then chinese_full tk else [])"

definition generate_chinese ::
  "string \<Rightarrow> string \<Rightarrow> string \<Rightarrow> string \<Rightarrow> string \<Rightarrow> string \<Rightarrow> bool \<Rightarrow> string list option" where
  "generate_chinese last' first' alias alias2 year dob full =
     do {
       tk \<leftarrow> chinese_tokens last' first' alias alias2 year dob;
       Some (trim (chinese_combos tk full) MAX_LEN_CN)
     }"

subsection \<open>Western name generator\<close>

text \<open>The tokens of \<^verbatim>\<open>generate_western\<close> (lines 422 to 439).\<close>

record en_tokens =
  en_f :: string
  en_l :: string
  en_m :: string
  en_a :: string
  en_a2 :: string
  en_fi :: string
  en_li :: string
  en_mi :: string
  en_ai :: string
  en_init_fl :: string
  en_init_fml :: string
  en_ml :: string
  en_yr2 :: string
  en_dy2 :: string
  en_md :: string
  en_dates :: "string list"

definition western_tokens ::
  "string \<Rightarrow> string \<Rightarrow> string \<Rightarrow> string \<Rightarrow> string \<Rightarrow> string \<Rightarrow> string \<Rightarrow> en_tokens option" where
  "western_tokens first' last' middle alias alias2 year dob =
     do {
       let f = low (strip first');
       let l = low (strip last');
       let m = (if middle \<noteq> [] then low (strip middle) else []);
       let a = (if alias \<noteq> [] then low (strip alias) else []);
       let a2 = (if alias2 \<noteq> [] then low (strip alias2) else []);
       fi \<leftarrow> ini f;
       li \<leftarrow> ini l;
       mi \<leftarrow> (if m \<noteq> [] then ini m else Some []);
       ai \<leftarrow> (if a \<noteq> [] then ini a else Some []);
       let init_fl = fi @ li;
       let init_fml = (if mi \<noteq> [] then fi @ mi @ li else fi @ li);
       let ml = (if m \<noteq> [] then m @ l else []);
       dt \<leftarrow> parse_dates year dob;
       Some \<lparr>en_f = f, en_l = l, en_m = m, en_a = a, en_a2 = a2, en_fi = fi, en_li = li,
             en_mi = mi, en_ai = ai, en_init_fl = init_fl, en_init_fml = init_fml, en_ml = ml,
             en_yr2 = fst (snd dt), en_dy2 = fst (snd (snd dt)), en_md = snd (snd (snd dt)),
             en_dates = date_list dt\<rparr>
     }"

text \<open>Plain names and short combos (lines 444 to 463).\<close>

definition en_plain :: "en_tokens \<Rightarrow> string list" where
  "en_plain tk =
     (let f = en_f tk; l = en_l tk; m = en_m tk; mi = en_mi tk
      in [f @ l, l @ f] @ (if m \<noteq> [] then [f @ mi @ l, en_ml tk] else []))"

definition en_short :: "en_tokens \<Rightarrow> string list" where
  "en_short tk =
     (let f = en_f tk; l = en_l tk; m = en_m tk; fi = en_fi tk; li = en_li tk; mi = en_mi tk
      in [f @ li, fi @ l, f @ ''.'' @ li, fi @ ''.'' @ l, li @ ''.'' @ f]
         @ (if m \<noteq> [] then
              [f @ mi, f @ ''.'' @ mi, fi @ ''.'' @ m, fi @ mi @ ''.'' @ l, f @ mi @ ''.'' @ li]
            else []))"

text \<open>Alias combos and alias with dates (lines 466 to 484).\<close>

definition en_alias :: "en_tokens \<Rightarrow> string list" where
  "en_alias tk =
     (let f = en_f tk; l = en_l tk; m = en_m tk; a = en_a tk; fi = en_fi tk; li = en_li tk;
          ai = en_ai tk
      in if a \<noteq> [] then
           [a @ f, f @ a, a @ l, l @ a, a @ fi, ai @ f, a @ li, ai @ l,
            a @ ''.'' @ fi, ai @ ''.'' @ f, a @ ''.'' @ li, ai @ ''.'' @ l,
            li @ ''.'' @ a, fi @ ''.'' @ a]
           @ (if m \<noteq> [] then [a @ en_init_fml tk] else [])
         else [])"

definition en_alias_date :: "en_tokens \<Rightarrow> string list" where
  "en_alias_date tk =
     (let a = en_a tk; dy2 = en_dy2 tk; yr2 = en_yr2 tk; dates = en_dates tk
      in if a \<noteq> [] then
           map (\<lambda>d. a @ d) dates
           @ (if dy2 \<noteq> [] \<and> yr2 \<noteq> [] then [a @ dy2 @ yr2] else [])
         else [])"

text \<open>Initials (lines 487 to 496).\<close>

definition en_initials :: "en_tokens \<Rightarrow> string list" where
  "en_initials tk =
     (let f = en_f tk; l = en_l tk; a = en_a tk; ai = en_ai tk; init_fl = en_init_fl tk;
          init_fml = en_init_fml tk; dates = en_dates tk
      in [init_fml, init_fml @ ''.'' @ l, f @ ''.'' @ init_fml]
         @ concat (map (\<lambda>d. [init_fml @ d, init_fl @ d]) dates)
         @ (if a \<noteq> [] then [ai @ init_fml] else []))"

text \<open>Alias with the initials, and alias with last name and date (lines 501 to 520).\<close>

definition en_alias_initials :: "en_tokens \<Rightarrow> string list" where
  "en_alias_initials tk =
     (let a = en_a tk; init_fl = en_init_fl tk; dates = en_dates tk
      in if a \<noteq> [] then
           [a @ init_fl, a @ ''.'' @ init_fl, init_fl @ ''.'' @ a]
           @ concat (map (\<lambda>d. [a @ init_fl @ d, a @ ''.'' @ init_fl @ d]) dates)
         else [])"

definition en_alias_last_date :: "en_tokens \<Rightarrow> string list" where
  "en_alias_last_date tk =
     (let a = en_a tk; l = en_l tk; dates = en_dates tk
      in if a \<noteq> [] then concat (map (\<lambda>d. [a @ l @ d, a @ ''.'' @ l @ d]) dates) else [])"

text \<open>Names with dates (lines 523 to 533).\<close>

definition en_date_name :: "en_tokens \<Rightarrow> string list" where
  "en_date_name tk =
     (let f = en_f tk; l = en_l tk; m = en_m tk; a = en_a tk; init_fml = en_init_fml tk;
          ml = en_ml tk; md = en_md tk; dy2 = en_dy2 tk; dates = en_dates tk
      in concat (map (\<lambda>d. [f @ d, l @ d]) dates)
         @ (if a \<noteq> [] then
              concat (map (\<lambda>d. [a @ f @ d, a @ ''.'' @ f @ d, a @ init_fml @ d]) dates)
            else [])
         @ (if md \<noteq> [] then (if m \<noteq> [] then [ml @ md, ml @ dy2] else []) else []))"

text \<open>Dot separator variants (lines 536 to 556).\<close>

definition en_separator :: "en_tokens \<Rightarrow> string list" where
  "en_separator tk =
     (let f = en_f tk; l = en_l tk; m = en_m tk; a = en_a tk; fi = en_fi tk; li = en_li tk;
          mi = en_mi tk; init_fml = en_init_fml tk; dates = en_dates tk
      in [f @ ''.'' @ l, l @ ''.'' @ f]
         @ (if m \<noteq> [] then [f @ ''.'' @ mi @ ''.'' @ l, fi @ ''.'' @ mi @ ''.'' @ l] else [])
         @ (if a \<noteq> [] then
              [a @ ''.'' @ f, f @ ''.'' @ a, a @ ''.'' @ l, l @ ''.'' @ a,
               a @ ''.'' @ init_fml, init_fml @ ''.'' @ a]
              @ map (\<lambda>d. a @ ''.'' @ init_fml @ d) dates
              @ (if m \<noteq> [] then [a @ f @ mi @ li, a @ fi @ li @ f] else [])
            else []))"

text \<open>First name with the alias (lines 559 to 582).\<close>

definition en_first_alias :: "en_tokens \<Rightarrow> string list" where
  "en_first_alias tk =
     (let f = en_f tk; l = en_l tk; a = en_a tk; li = en_li tk; ai = en_ai tk;
          dates = en_dates tk
      in if a \<noteq> [] then
           [f @ a @ l, f @ ''.'' @ a @ ''.'' @ l, f @ a @ li, f @ ''.'' @ a @ li]
           @ concat (map (\<lambda>d. [f @ a @ d, f @ ''.'' @ a @ d, f @ a @ li @ d]) dates)
           @ [f @ ai, f @ ''.'' @ ai]
           @ concat (map (\<lambda>d. [f @ ai @ d, f @ ''.'' @ ai @ d]) dates)
         else [])"

text \<open>
  The second alias (lines 585 to 592); the same six combos are appended again in full mode
  (lines 605 to 610).
\<close>

definition en_alias2 :: "en_tokens \<Rightarrow> string list" where
  "en_alias2 tk =
     (let f = en_f tk; l = en_l tk; a = en_a tk; a2 = en_a2 tk; init_fml = en_init_fml tk
      in if a2 \<noteq> [] then
           concat (map (\<lambda>sep. [a2 @ sep @ f, a2 @ sep @ l, f @ sep @ a2,
                                (if a \<noteq> [] then a2 @ sep @ a else []),
                                (if a \<noteq> [] then a @ sep @ a2 else []),
                                a2 @ sep @ init_fml]) [[], ''.''])
         else [])"

text \<open>Everything appended before the \<^verbatim>\<open>if full:\<close> of line 597.\<close>

definition western_default :: "en_tokens \<Rightarrow> string list" where
  "western_default tk =
     en_plain tk @ en_short tk @ en_alias tk @ en_alias_date tk @ en_initials tk
     @ en_alias_initials tk @ en_alias_last_date tk @ en_date_name tk @ en_separator tk
     @ en_first_alias tk @ en_alias2 tk"

text \<open>Full mode (lines 599 to 630).\<close>

definition en_full_cores :: "en_tokens \<Rightarrow> string list" where
  "en_full_cores tk =
     (let cores = filter (\<lambda>x. x \<noteq> [])
                    [en_f tk, en_l tk, en_a tk, en_a2 tk, en_init_fml tk, en_init_fl tk, en_ml tk]
      in concat (map (\<lambda>name. concat (map (\<lambda>d. [name @ d, name @ ''.'' @ d]) (en_dates tk))) cores))"

definition en_full_alias2 :: "en_tokens \<Rightarrow> string list" where
  "en_full_alias2 tk =
     (let a2 = en_a2 tk; dates = en_dates tk
      in if a2 \<noteq> [] then
           en_alias2 tk @ concat (map (\<lambda>d. [a2 @ d, a2 @ ''.'' @ d]) dates)
         else [])"

definition en_full_rest :: "en_tokens \<Rightarrow> string list" where
  "en_full_rest tk =
     (let f = en_f tk; l = en_l tk; m = en_m tk; a = en_a tk; fi = en_fi tk; li = en_li tk;
          mi = en_mi tk; ai = en_ai tk; init_fl = en_init_fl tk; init_fml = en_init_fml tk;
          md = en_md tk; dates = en_dates tk
      in (if m \<noteq> [] then [f @ ''.'' @ mi @ li, fi @ mi @ ''.'' @ l] else [])
         @ (if a \<noteq> [] then
              [ai @ ''.'' @ f @ l, a @ ''.'' @ f @ l, ai @ f @ ''.'' @ l]
              @ concat (map (\<lambda>d. [f @ ''.'' @ a @ ''.'' @ d, f @ a @ init_fl @ d]) dates)
            else [])
         @ (if a \<noteq> [] \<and> m \<noteq> [] then [(if md \<noteq> [] then a @ ''.'' @ init_fml @ md else [])]
            else []))"

definition western_full :: "en_tokens \<Rightarrow> string list" where
  "western_full tk = en_full_cores tk @ en_full_alias2 tk @ en_full_rest tk"

definition western_combos :: "en_tokens \<Rightarrow> bool \<Rightarrow> string list" where
  "western_combos tk full = western_default tk @ (if full then western_full tk else [])"

definition generate_western ::
  "string \<Rightarrow> string \<Rightarrow> string \<Rightarrow> string \<Rightarrow> string \<Rightarrow> string \<Rightarrow> string \<Rightarrow> bool
     \<Rightarrow> string list option" where
  "generate_western first' last' middle alias alias2 year dob full =
     do {
       tk \<leftarrow> western_tokens first' last' middle alias alias2 year dob;
       Some (trim (western_combos tk full) MAX_LEN_EN)
     }"


subsection \<open>The filter and dedupe stage as the specification words it\<close>

text \<open>
  Section 4.5 of the specification: trim each candidate, drop the empty ones and those whose
  length is outside the window from 6 to \<open>maxlen\<close>, then drop every duplicate, keeping the
  first occurrence at its position. \<open>first_occurrences\<close> and \<open>spec_filter\<close> follow these
  words; they are compared with \<open>trim\<close> below.
\<close>

fun first_occurrences :: "'a list \<Rightarrow> 'a list" where
  "first_occurrences [] = []"
| "first_occurrences (x # xs) = x # first_occurrences (removeAll x xs)"

definition in_window :: "int \<Rightarrow> string \<Rightarrow> bool" where
  "in_window maxlen x = (x \<noteq> [] \<and> 6 \<le> int (length x) \<and> int (length x) \<le> maxlen)"

definition spec_filter :: "string list \<Rightarrow> int \<Rightarrow> string list" where
  "spec_filter candidates maxlen =
     first_occurrences (filter (in_window maxlen) (map strip candidates))"

text \<open>The entries of \<open>ys\<close> that are not yet in \<open>res\<close> (what the test \<^verbatim>\<open>x not in seen\<close> lets through).\<close>

definition unseen :: "'a list \<Rightarrow> 'a list \<Rightarrow> 'a list" where
  "unseen res ys = filter (\<lambda>y. y \<notin> set res) ys"

subsection \<open>Well-formed dots\<close>

text \<open>
  A string is dot-well-formed when it does not begin with a dot, does not end with a dot
  and has no two dots in a row, so that every dot separates two non-empty segments.
\<close>

fun no_double_dot :: "string \<Rightarrow> bool" where
  "no_double_dot (a # b # cs) = (\<not> (a = CHR ''.'' \<and> b = CHR ''.'') \<and> no_double_dot (b # cs))"
| "no_double_dot _ = True"

definition dot_well_formed :: "string \<Rightarrow> bool" where
  "dot_well_formed x = (take 1 x \<noteq> ''.'' \<and> take 1 (rev x) \<noteq> ''.'' \<and> no_double_dot x)"

text \<open>
  An automaton that reads a candidate from the left and decides whether the candidate is
  dot-well-formed once \<open>trim\<close> has stripped it. Its states record what the last character
  that is not whitespace was (none yet, a segment character, a dot) and whether whitespace
  has followed it.
\<close>

datatype dot_state = DStart | DSeg | DSegWs | DDot | DDotWs | DBad

fun dot_step :: "dot_state \<Rightarrow> char \<Rightarrow> dot_state" where
  "dot_step DBad c = DBad"
| "dot_step DStart c = (if c = CHR ''.'' then DBad else if isspace c then DStart else DSeg)"
| "dot_step DSeg c = (if c = CHR ''.'' then DDot else if isspace c then DSegWs else DSeg)"
| "dot_step DSegWs c = (if c = CHR ''.'' then DDot else if isspace c then DSegWs else DSeg)"
| "dot_step DDot c = (if c = CHR ''.'' then DBad else if isspace c then DDotWs else DSeg)"
| "dot_step DDotWs c = (if c = CHR ''.'' then DDot else if isspace c then DDotWs else DSeg)"

definition dot_run :: "dot_state \<Rightarrow> string \<Rightarrow> dot_state" where
  "dot_run q x = foldl dot_step q x"

definition dot_accept :: "dot_state \<Rightarrow> bool" where
  "dot_accept q = (q = DStart \<or> q = DSeg \<or> q = DSegWs)"

text \<open>Whitespace removed at the right end only, and what each state knows about the prefix read.\<close>

definition rstrip :: "string \<Rightarrow> string" where
  "rstrip x = rev (dropWhile isspace (rev x))"

fun dot_inv :: "dot_state \<Rightarrow> string \<Rightarrow> bool" where
  "dot_inv DStart p = (p = [])"
| "dot_inv DSeg p =
     (p \<noteq> [] \<and> \<not> isspace (last p) \<and> last p \<noteq> CHR ''.'' \<and> hd p \<noteq> CHR ''.'' \<and> no_double_dot p)"
| "dot_inv DSegWs p =
     (p \<noteq> [] \<and> isspace (last p) \<and> rstrip p \<noteq> [] \<and> last (rstrip p) \<noteq> CHR ''.''
      \<and> hd p \<noteq> CHR ''.'' \<and> no_double_dot p)"
| "dot_inv DDot p = (p \<noteq> [] \<and> last p = CHR ''.'' \<and> hd p \<noteq> CHR ''.'' \<and> no_double_dot p)"
| "dot_inv DDotWs p =
     (p \<noteq> [] \<and> isspace (last p) \<and> rstrip p \<noteq> [] \<and> last (rstrip p) = CHR ''.''
      \<and> hd p \<noteq> CHR ''.'' \<and> no_double_dot p)"
| "dot_inv DBad p = True"

text \<open>
  What the dot automaton needs to know about the tokens: a name token has no dot and, unless
  it is empty, neither begins nor ends with whitespace (it was stripped, or is a word of
  \<^verbatim>\<open>split()\<close>, or an initial); the tokens that every tier relies on are not empty; no
  date suffix has a dot.
\<close>

definition name_tok :: "string \<Rightarrow> bool" where
  "name_tok t = (CHR ''.'' \<notin> set t \<and> (t = [] \<or> (\<not> isspace (hd t) \<and> \<not> isspace (last t))))"

definition cn_dot_ok :: "cn_tokens \<Rightarrow> bool" where
  "cn_dot_ok tk =
     (name_tok (cn_s tk) \<and> name_tok (cn_a tk) \<and> name_tok (cn_a2 tk) \<and> name_tok (cn_g tk)
      \<and> name_tok (cn_g2 tk) \<and> name_tok (cn_si tk) \<and> name_tok (cn_gi tk) \<and> name_tok (cn_ai tk)
      \<and> name_tok (cn_init_sg tk) \<and> name_tok (cn_init_as tk) \<and> name_tok (cn_init_asg tk)
      \<and> cn_s tk \<noteq> [] \<and> cn_g tk \<noteq> [] \<and> cn_si tk \<noteq> [] \<and> cn_gi tk \<noteq> []
      \<and> cn_init_sg tk \<noteq> [] \<and> (cn_a tk \<noteq> [] \<longrightarrow> cn_ai tk \<noteq> [])
      \<and> (\<forall>d \<in> set (cn_dates tk). CHR ''.'' \<notin> set d)
      \<and> CHR ''.'' \<notin> set (cn_dy2 tk) \<and> CHR ''.'' \<notin> set (cn_yr2 tk))"

definition en_dot_ok :: "en_tokens \<Rightarrow> bool" where
  "en_dot_ok tk =
     (name_tok (en_f tk) \<and> name_tok (en_l tk) \<and> name_tok (en_m tk) \<and> name_tok (en_a tk)
      \<and> name_tok (en_a2 tk) \<and> name_tok (en_fi tk) \<and> name_tok (en_li tk) \<and> name_tok (en_mi tk)
      \<and> name_tok (en_ai tk) \<and> name_tok (en_init_fl tk) \<and> name_tok (en_init_fml tk)
      \<and> name_tok (en_ml tk)
      \<and> en_f tk \<noteq> [] \<and> en_l tk \<noteq> [] \<and> en_fi tk \<noteq> [] \<and> en_li tk \<noteq> []
      \<and> en_init_fl tk \<noteq> [] \<and> en_init_fml tk \<noteq> []
      \<and> (en_m tk \<noteq> [] \<longrightarrow> en_mi tk \<noteq> [] \<and> en_ml tk \<noteq> [])
      \<and> (en_a tk \<noteq> [] \<longrightarrow> en_ai tk \<noteq> [])
      \<and> (\<forall>d \<in> set (en_dates tk). CHR ''.'' \<notin> set d)
      \<and> CHR ''.'' \<notin> set (en_dy2 tk) \<and> CHR ''.'' \<notin> set (en_yr2 tk)
      \<and> CHR ''.'' \<notin> set (en_md tk))"

text \<open>A date suffix that does not consist of whitespace only.\<close>

definition has_nonspace :: "string \<Rightarrow> bool" where
  "has_nonspace d = (\<exists>c \<in> set d. \<not> isspace c)"

subsection \<open>Name stems and date suffixes\<close>

text \<open>
  Decimal digits, strings without a digit (names) and strings of digits only (dates). A
  candidate built from such tokens splits in one way only into the stem before its first
  digit and the digits after it. \<open>stem_ok s x\<close> says that the candidate \<open>x\<close> does not begin
  with whitespace, that everything from its first digit on is digits, and that, if it has
  digits, its stem is not \<open>s\<close>.
\<close>

definition is_digit :: "char \<Rightarrow> bool" where
  "is_digit c = (let n = (of_char c :: nat) in 48 \<le> n \<and> n \<le> 57)"

definition no_digit :: "string \<Rightarrow> bool" where
  "no_digit t = (\<forall>c \<in> set t. \<not> is_digit c)"

definition all_digit :: "string \<Rightarrow> bool" where
  "all_digit d = (\<forall>c \<in> set d. is_digit c)"

definition hd_ok :: "string \<Rightarrow> bool" where
  "hd_ok t = (t = [] \<or> \<not> isspace (hd t))"

definition stem_ok :: "string \<Rightarrow> string \<Rightarrow> bool" where
  "stem_ok s x =
     (hd_ok x \<and> all_digit (dropWhile (\<lambda>c. \<not> is_digit c) x)
      \<and> (no_digit x \<or> takeWhile (\<lambda>c. \<not> is_digit c) x \<noteq> s))"

text \<open>
  What the stem argument needs to know about the tokens of \<open>generate_chinese\<close>: the name
  tokens have no digit and do not begin with whitespace, the given name is not empty, the
  date suffixes are digits, the surname has no dot, and the surname is none of the stems
  that a tier puts in front of a date.
\<close>

definition cn_stem_tokens :: "cn_tokens \<Rightarrow> bool" where
  "cn_stem_tokens tk =
     (no_digit (cn_s tk) \<and> no_digit (cn_a tk) \<and> no_digit (cn_a2 tk) \<and> no_digit (cn_g tk)
      \<and> no_digit (cn_g2 tk) \<and> no_digit (cn_si tk) \<and> no_digit (cn_gi tk) \<and> no_digit (cn_ai tk)
      \<and> no_digit (cn_init_sg tk) \<and> no_digit (cn_init_as tk) \<and> no_digit (cn_init_asg tk)
      \<and> hd_ok (cn_s tk) \<and> hd_ok (cn_a tk) \<and> hd_ok (cn_a2 tk) \<and> hd_ok (cn_g tk)
      \<and> hd_ok (cn_g2 tk) \<and> hd_ok (cn_si tk) \<and> hd_ok (cn_gi tk) \<and> hd_ok (cn_ai tk)
      \<and> hd_ok (cn_init_sg tk) \<and> hd_ok (cn_init_as tk) \<and> hd_ok (cn_init_asg tk)
      \<and> cn_g tk \<noteq> [] \<and> cn_gi tk \<noteq> [] \<and> cn_init_sg tk \<noteq> []
      \<and> (cn_a tk \<noteq> [] \<longrightarrow> cn_ai tk \<noteq> [])
      \<and> (cn_s tk \<noteq> [] \<longrightarrow> cn_si tk \<noteq> [])
      \<and> (\<forall>d \<in> set (cn_dates tk). all_digit d \<and> d \<noteq> [])
      \<and> (cn_yr2 tk \<noteq> [] \<longrightarrow> all_digit (cn_yr2 tk))
      \<and> (cn_dy2 tk \<noteq> [] \<longrightarrow> all_digit (cn_dy2 tk))
      \<and> CHR ''.'' \<notin> set (cn_s tk))"

definition cn_stems_default :: "cn_tokens \<Rightarrow> string list" where
  "cn_stems_default tk =
     [cn_a tk, cn_a2 tk, cn_g tk, cn_g2 tk, cn_init_sg tk,
      cn_a tk @ cn_g tk, cn_a tk @ cn_init_sg tk,
      cn_g2 tk @ cn_si tk, cn_g2 tk @ cn_g tk, cn_g2 tk @ cn_init_sg tk,
      cn_g tk @ cn_si tk, cn_a2 tk @ cn_g tk]"

definition cn_stems_full :: "cn_tokens \<Rightarrow> string list" where
  "cn_stems_full tk =
     [cn_a tk @ cn_g tk @ cn_si tk, cn_ai tk @ cn_g tk, cn_ai tk @ cn_init_sg tk,
      cn_g2 tk @ cn_g tk @ cn_si tk, cn_ai tk @ cn_g2 tk, cn_a tk @ cn_g2 tk,
      cn_a tk @ cn_g2 tk @ cn_si tk]"

subsection \<open>Name tokens followed by date material\<close>

text \<open>
  A string is \<open>built\<close> from a list of name tokens and a list of date material when it is
  one entry of the date material preceded by any number of name tokens.
\<close>

function built :: "string list \<Rightarrow> string list \<Rightarrow> string \<Rightarrow> bool" where
  "built names sfx x =
     (x \<in> set sfx
      \<or> (\<exists>t \<in> set names.
            if t \<noteq> [] \<and> prefix t x then built names sfx (drop (length t) x) else False))"
  by pat_completeness auto

termination built
  by (relation "measure (\<lambda>(names, sfx, x). length x)") (auto simp: prefix_def)

declare built.simps [simp del]

text \<open>
  The name tokens of the two generators, with the dot, and the date material that their
  tiers append: nothing, an entry of \<^verbatim>\<open>dates\<close>, the flip \<^verbatim>\<open>dy2 + yr2\<close> (lines 158, 226 and
  484), and in the Western generator \<^verbatim>\<open>md\<close> and \<^verbatim>\<open>dy2\<close> themselves (lines 533 and 630).
\<close>

definition cn_names :: "cn_tokens \<Rightarrow> string list" where
  "cn_names tk =
     [cn_s tk, cn_a tk, cn_a2 tk, cn_g tk, cn_g2 tk, cn_si tk, cn_gi tk, cn_ai tk,
      cn_init_sg tk, cn_init_as tk, cn_init_asg tk, ''.'']"

definition cn_date_material :: "cn_tokens \<Rightarrow> string list" where
  "cn_date_material tk = [] # (cn_dy2 tk @ cn_yr2 tk) # cn_dates tk"

definition en_names :: "en_tokens \<Rightarrow> string list" where
  "en_names tk =
     [en_f tk, en_l tk, en_m tk, en_a tk, en_a2 tk, en_fi tk, en_li tk, en_mi tk, en_ai tk,
      en_init_fl tk, en_init_fml tk, en_ml tk, ''.'']"

definition en_date_material :: "en_tokens \<Rightarrow> string list" where
  "en_date_material tk = [] # (en_dy2 tk @ en_yr2 tk) # en_md tk # en_dy2 tk # en_dates tk"

section \<open>Properties\<close>

subsection \<open>The filter and dedupe stage\<close>

lemma set_first_occurrences: "set (first_occurrences xs) = set xs"
  by (induction xs rule: first_occurrences.induct) auto

lemma distinct_first_occurrences: "distinct (first_occurrences xs)"
  by (induction xs rule: first_occurrences.induct) (auto simp: set_first_occurrences)

lemma subseq_first_occurrences: "subseq (first_occurrences xs) xs"
proof (induction xs rule: first_occurrences.induct)
  case 1
  show ?case by simp
next
  case (2 x xs)
  have "subseq (removeAll x xs) xs"
    by (simp add: removeAll_filter_not_eq)
  with 2 have "subseq (first_occurrences (removeAll x xs)) xs"
    using subseq_order.order_trans by blast
  then show ?case by simp
qed

lemma unseen_Cons:
  "unseen res (y # ys) = (if y \<in> set res then unseen res ys else y # unseen res ys)"
  by (simp add: unseen_def)

lemma removeAll_unseen: "removeAll x (unseen res ys) = unseen (res @ [x]) ys"
  by (induction ys) (auto simp: unseen_def)

lemma trim_loop_Cons:
  "trim_loop (x # lst) maxlen seen res =
     (if in_window maxlen (strip x) \<and> strip x \<notin> seen
      then trim_loop lst maxlen (insert (strip x) seen) (res @ [strip x])
      else trim_loop lst maxlen seen res)"
  by (simp add: in_window_def MIN_LEN_def Let_def)

text \<open>
  The loop invariant of \<open>trim\<close>: \<open>seen\<close> holds the elements of \<open>result\<close>, and what is still
  to come are the first occurrences among the admissible entries that are not in \<open>result\<close>.
\<close>

lemma trim_loop_spec:
  "trim_loop lst maxlen (set res) res =
     res @ first_occurrences (unseen res (filter (in_window maxlen) (map strip lst)))"
proof (induction lst arbitrary: res)
  case Nil
  show ?case by (simp add: unseen_def)
next
  case (Cons x lst)
  let ?ys = "filter (in_window maxlen) (map strip lst)"
  show ?case
  proof (cases "in_window maxlen (strip x) \<and> strip x \<notin> set res")
    case True
    have L: "trim_loop (x # lst) maxlen (set res) res =
        (res @ [strip x]) @ first_occurrences (unseen (res @ [strip x]) ?ys)"
      using True Cons.IH [of "res @ [strip x]"]
      by (simp add: trim_loop_Cons del: trim_loop.simps)
    have R: "first_occurrences (unseen res (filter (in_window maxlen) (map strip (x # lst)))) =
        strip x # first_occurrences (unseen (res @ [strip x]) ?ys)"
      using True by (simp add: unseen_Cons removeAll_unseen)
    show ?thesis unfolding L R by simp
  next
    case False
    have L: "trim_loop (x # lst) maxlen (set res) res =
        res @ first_occurrences (unseen res ?ys)"
      using False Cons.IH [of res]
      by (auto simp: trim_loop_Cons simp del: trim_loop.simps)
    have R: "unseen res (filter (in_window maxlen) (map strip (x # lst))) = unseen res ?ys"
      using False by (auto simp: unseen_Cons)
    show ?thesis unfolding L R by simp
  qed
qed

lemma trim_eq_spec_filter: "trim lst maxlen = spec_filter lst maxlen"
  using trim_loop_spec [of lst maxlen "[]"] by (simp add: trim_def spec_filter_def unseen_def)

lemma set_trim:
  "set (trim lst maxlen) = {y \<in> strip ` set lst. 6 \<le> int (length y) \<and> int (length y) \<le> maxlen}"
  by (auto simp: trim_eq_spec_filter spec_filter_def set_first_occurrences in_window_def)

lemma distinct_trim: "distinct (trim lst maxlen)"
  by (simp add: trim_eq_spec_filter spec_filter_def distinct_first_occurrences)

lemma subseq_trim: "subseq (trim lst maxlen) (map strip lst)"
proof -
  have "subseq (filter (in_window maxlen) (map strip lst)) (map strip lst)"
    by simp
  then show ?thesis
    unfolding trim_eq_spec_filter spec_filter_def
    using subseq_first_occurrences subseq_order.order_trans by blast
qed

lemma first_occurrences_snoc:
  "first_occurrences (xs @ [x]) = first_occurrences xs @ (if x \<in> set xs then [] else [x])"
proof (induction xs rule: first_occurrences.induct)
  case 1
  show ?case by simp
next
  case (2 y ys)
  then show ?case by (cases "x = y") simp_all
qed

lemma first_occurrences_append:
  "first_occurrences (xs @ ys) = first_occurrences xs @ first_occurrences (unseen xs ys)"
proof (induction ys rule: rev_induct)
  case Nil
  show ?case by (simp add: unseen_def)
next
  case (snoc y ys)
  have "first_occurrences (xs @ ys @ [y]) = first_occurrences ((xs @ ys) @ [y])" by simp
  also have "\<dots> = first_occurrences (xs @ ys) @ (if y \<in> set (xs @ ys) then [] else [y])"
    by (rule first_occurrences_snoc)
  finally show ?case
    using snoc by (auto simp: unseen_def first_occurrences_snoc)
qed

lemma prefix_trim_append: "prefix (trim xs maxlen) (trim (xs @ ys) maxlen)"
  by (simp add: trim_eq_spec_filter spec_filter_def first_occurrences_append)

lemma trim_snoc:
  "trim (lst @ [x]) maxlen =
     trim lst maxlen @
       (if in_window maxlen (strip x) \<and> strip x \<notin> set (trim lst maxlen) then [strip x] else [])"
  by (auto simp: trim_eq_spec_filter spec_filter_def first_occurrences_snoc
      set_first_occurrences)

text \<open>
  Claim C3. For every list of strings and every \<open>maxlen\<close>, \<open>trim\<close> computes what the
  specification's filter stage describes: the trimmed entries of length 6 to \<open>maxlen\<close>,
  empty strings dropped, each string kept once at the position of its first occurrence.
  So the result has no duplicate, its elements are exactly the trimmed entries in the
  window, it is a subsequence of the trimmed input, and an entry appended to the input is
  appended to the result exactly when it is admissible and new.
\<close>

theorem trim_refines_spec_filter:
  "trim lst maxlen = spec_filter lst maxlen
   \<and> distinct (trim lst maxlen)
   \<and> set (trim lst maxlen) =
       {y \<in> strip ` set lst. y \<noteq> [] \<and> 6 \<le> int (length y) \<and> int (length y) \<le> maxlen}
   \<and> subseq (trim lst maxlen) (map strip lst)
   \<and> trim (lst @ [x]) maxlen =
       trim lst maxlen @
         (if in_window maxlen (strip x) \<and> strip x \<notin> set (trim lst maxlen)
          then [strip x] else [])"
proof -
  have S: "set (trim lst maxlen) =
      {y \<in> strip ` set lst. y \<noteq> [] \<and> 6 \<le> int (length y) \<and> int (length y) \<le> maxlen}"
    unfolding set_trim by auto
  show ?thesis
    by (intro conjI trim_eq_spec_filter distinct_trim S subseq_trim trim_snoc)
qed

theorem trim_refines_spec_filter_witness:
  "trim [''  tommy01 '', ''tommy01'', ''tc'', ''t.chan'', ''tommy.taiman2001''] 10
     = [''tommy01'', ''t.chan'']
   \<and> spec_filter [''  tommy01 '', ''tommy01'', ''tc'', ''t.chan'', ''tommy.taiman2001''] 10
     = [''tommy01'', ''t.chan'']"
proof -
  have "trim [''  tommy01 '', ''tommy01'', ''tc'', ''t.chan'', ''tommy.taiman2001''] 10
      = [''tommy01'', ''t.chan'']"
    by code_simp
  moreover have "trim [''  tommy01 '', ''tommy01'', ''tc'', ''t.chan'', ''tommy.taiman2001''] 10
      = spec_filter [''  tommy01 '', ''tommy01'', ''tc'', ''t.chan'', ''tommy.taiman2001''] 10"
    using trim_refines_spec_filter
      [of "[''  tommy01 '', ''tommy01'', ''tc'', ''t.chan'', ''tommy.taiman2001'']" 10 "[]"]
    by (rule conjunct1)
  ultimately show ?thesis by (simp only: simp_thms)
qed

subsection \<open>The functions always return\<close>

lemma ini_eq: "ini s = Some (low (take 1 s))"
  by (cases s) (simp_all add: ini_def subscript_def low_def)

lemma last_n_eq_Nil [simp]: "0 < n \<Longrightarrow> last_n n s = [] \<longleftrightarrow> s = []"
  by (cases s) (auto simp: last_n_def)

lemma last_n_Nil [simp]: "last_n n [] = []"
  by (simp add: last_n_def)

lemma strip_Nil [simp]: "strip [] = []"
  by (simp add: strip_def)

lemma parse_dates_no_dob:
  assumes "dob = [] \<or> length (dob_parts dob) \<noteq> 3"
  shows "parse_dates year dob =
    Some (last_n 4 (strip year), last_n 2 (last_n 4 (strip year)), [], [])"
  using assms by (auto simp: parse_dates_def Let_def)

lemma parse_dates_three:
  assumes "dob \<noteq> []" and "dob_parts dob = [y, m, d]"
  shows "parse_dates year dob =
    Some (if strip year = [] then y else last_n 4 (strip year),
          if strip year = [] then last_n 2 y else last_n 2 (last_n 4 (strip year)),
          last_n 2 (zfill 2 d), zfill 2 m @ zfill 2 d)"
  using assms by (auto simp: parse_dates_def Let_def subscript_def)

lemma length3E:
  assumes "length xs = 3"
  obtains a b c where "xs = [a, b, c]"
  using assms by (auto simp: length_Suc_conv numeral_3_eq_3)

lemma parse_dates_total: "\<exists>dt. parse_dates year dob = Some dt"
proof (cases "dob = [] \<or> length (dob_parts dob) \<noteq> 3")
  case True
  then show ?thesis by (simp add: parse_dates_no_dob)
next
  case False
  then obtain y m d where "dob_parts dob = [y, m, d]"
    by (auto elim: length3E)
  with False show ?thesis by (simp add: parse_dates_three)
qed

lemma chinese_tokens_total: "\<exists>tk. chinese_tokens l f a a2 year dob = Some tk"
proof -
  obtain dt where "parse_dates year dob = Some dt"
    using parse_dates_total by blast
  then show ?thesis
    by (simp add: chinese_tokens_def ini_eq subscript_def Let_def)
qed

lemma western_tokens_total: "\<exists>tk. western_tokens f l m a a2 year dob = Some tk"
proof -
  obtain dt where "parse_dates year dob = Some dt"
    using parse_dates_total by blast
  then show ?thesis
    by (simp add: western_tokens_def ini_eq Let_def)
qed

lemma generate_chinese_eq:
  "chinese_tokens l f a a2 year dob = Some tk \<Longrightarrow>
   generate_chinese l f a a2 year dob full = Some (trim (chinese_combos tk full) MAX_LEN_CN)"
  by (simp add: generate_chinese_def)

lemma generate_western_eq:
  "western_tokens f l m a a2 year dob = Some tk \<Longrightarrow>
   generate_western f l m a a2 year dob full = Some (trim (western_combos tk full) MAX_LEN_EN)"
  by (simp add: generate_western_def)

lemma trim_window: "x \<in> set (trim lst maxlen) \<Longrightarrow> 6 \<le> length x \<and> int (length x) \<le> maxlen"
  by (auto simp: set_trim)

lemma generate_chinese_scenario:
  "generate_chinese ''Chan'' ''Tai Man'' ''Tommy'' [] [] ''2001/10/15'' False = Some
  [''tommy2001'', ''tommy01'', ''tommy1015'', ''tommy15'', ''tommy1501'',
   ''tommyc'', ''tommy.c'', ''c.tommy'', ''t.chan'', ''tommytaiman'',
   ''tommy.taiman'', ''taiman.tommy'', ''tommytaiman2001'',
   ''tommy.taiman2001'', ''tommytaiman01'', ''tommy.taiman01'',
   ''tommytaiman1015'', ''tommy.taiman1015'', ''tommytaiman15'',
   ''tommy.taiman15'', ''tommyctm'', ''tommy.ctm'', ''ctm.tommy'',
   ''tommyctm2001'', ''tommy.ctm2001'', ''tommyctm01'', ''tommy.ctm01'',
   ''tommyctm1015'', ''tommy.ctm1015'', ''tommyctm15'', ''tommy.ctm15'',
   ''tommychan'', ''tommy.chan'', ''chan.tommy'', ''tommychan2001'',
   ''tommy.chan2001'', ''tommychan01'', ''tommy.chan01'', ''tommychan1015'',
   ''tommy.chan1015'', ''tommychan15'', ''tommy.chan15'', ''man2001'',
   ''man1015'', ''man1501'', ''manc2001'', ''man.c2001'', ''manc01'',
   ''man.c01'', ''manc1015'', ''man.c1015'', ''manc15'', ''man.c15'',
   ''mantaiman'', ''man.taiman'', ''mantaiman2001'', ''man.taiman2001'',
   ''mantaiman01'', ''man.taiman01'', ''mantaiman1015'', ''man.taiman1015'',
   ''mantaiman15'', ''man.taiman15'', ''manctm'', ''man.ctm'', ''ctm.man'',
   ''manctm2001'', ''man.ctm2001'', ''manctm01'', ''man.ctm01'',
   ''manctm1015'', ''man.ctm1015'', ''manctm15'', ''man.ctm15'',
   ''manchan'', ''man.chan'', ''chan.man'', ''manchan2001'',
   ''man.chan2001'', ''manchan01'', ''man.chan01'', ''manchan1015'',
   ''man.chan1015'', ''manchan15'', ''man.chan15'', ''taimanc'',
   ''taiman.c'', ''c.taiman'', ''taimanc2001'', ''taiman.c2001'',
   ''taimanc01'', ''taiman.c01'', ''taimanc1015'', ''taiman.c1015'',
   ''taimanc15'', ''taiman.c15'', ''taiman2001'', ''taiman01'',
   ''taiman1015'', ''taiman15'', ''chantm'', ''chan.tm'', ''chantm2001'',
   ''ctm2001'', ''chantm01'', ''chantm1015'', ''ctm1015'', ''chantm15'',
   ''chantaiman'', ''taimanchan'']"
  by code_simp

lemma generate_western_scenario:
  "generate_western ''Charlie'' ''Brown'' ''Monroe'' [] [] [] ''1990/03/22'' False = Some
  [''charliebrown'', ''browncharlie'', ''charliembrown'', ''monroebrown'',
   ''charlieb'', ''cbrown'', ''charlie.b'', ''c.brown'', ''b.charlie'',
   ''charliem'', ''charlie.m'', ''c.monroe'', ''cm.brown'', ''charliem.b'',
   ''cmb.brown'', ''charlie.cmb'', ''cmb1990'', ''cb1990'', ''cmb0322'',
   ''cb0322'', ''charlie1990'', ''brown1990'', ''charlie90'', ''brown90'',
   ''charlie0322'', ''brown0322'', ''charlie22'', ''brown22'',
   ''monroebrown0322'', ''monroebrown22'', ''charlie.brown'',
   ''brown.charlie'', ''charlie.m.brown'', ''c.m.brown'']"
  by code_simp

subsection \<open>The two scenarios, the length window and distinctness\<close>

text \<open>
  Claim C2. \<^verbatim>\<open>generate_chinese(last="Chan", first="Tai Man", alias="Tommy", dob="2001/10/15")\<close>
  returns a sequence that contains tommy2001, tommy01, tommy1015, tommy15, tommy1501,
  tommyctm, tommy.ctm, manchan, taimanc and ctm2001, and contains none of tommy10, ctm and
  chan2001.
\<close>

theorem chinese_scenario:
  "\<exists>r. generate_chinese ''Chan'' ''Tai Man'' ''Tommy'' [] [] ''2001/10/15'' False = Some r
     \<and> ''tommy2001'' \<in> set r \<and> ''tommy01'' \<in> set r \<and> ''tommy1015'' \<in> set r
     \<and> ''tommy15'' \<in> set r \<and> ''tommy1501'' \<in> set r \<and> ''tommyctm'' \<in> set r
     \<and> ''tommy.ctm'' \<in> set r \<and> ''manchan'' \<in> set r \<and> ''taimanc'' \<in> set r
     \<and> ''ctm2001'' \<in> set r
     \<and> ''tommy10'' \<notin> set r \<and> ''ctm'' \<notin> set r \<and> ''chan2001'' \<notin> set r"
  unfolding generate_chinese_scenario by simp

theorem chinese_scenario_witness:
  "''tommyctm'' \<in> set (the (generate_chinese ''Chan'' ''Tai Man'' ''Tommy'' [] [] ''2001/10/15'' False))
   \<and> ''chan2001'' \<notin> set (the (generate_chinese ''Chan'' ''Tai Man'' ''Tommy'' [] [] ''2001/10/15'' False))"
  using chinese_scenario by auto

text \<open>
  The second scenario of the specification lists cmb90 among the results of
  \<^verbatim>\<open>generate_western(first="Charlie", middle="Monroe", last="Brown", dob="1990/03/22")\<close>.
  The candidate \<open>init_fml + yr2\<close> is built, but it has 5 characters and \<open>trim\<close> drops it.
\<close>

theorem western_scenario_counterexample:
  "generate_western ''Charlie'' ''Brown'' ''Monroe'' [] [] [] ''1990/03/22'' False \<noteq> None
   \<and> ''cmb90'' \<notin> set (the (generate_western ''Charlie'' ''Brown'' ''Monroe'' [] [] []
        ''1990/03/22'' False))"
  unfolding generate_western_scenario by simp

text \<open>
  Claim C1, amended. The call above returns a sequence that contains charliebrown,
  browncharlie, charlie.brown, cmb0322 and charliem, and contains none of charlie03, cb and
  cmb90 (5 characters, below the minimum length 6).
\<close>

theorem western_scenario:
  "\<exists>r. generate_western ''Charlie'' ''Brown'' ''Monroe'' [] [] [] ''1990/03/22'' False = Some r
     \<and> ''charliebrown'' \<in> set r \<and> ''browncharlie'' \<in> set r \<and> ''charlie.brown'' \<in> set r
     \<and> ''cmb0322'' \<in> set r \<and> ''charliem'' \<in> set r
     \<and> ''charlie03'' \<notin> set r \<and> ''cb'' \<notin> set r \<and> ''cmb90'' \<notin> set r"
  unfolding generate_western_scenario by simp

theorem western_scenario_witness:
  "''cmb0322'' \<in> set (the (generate_western ''Charlie'' ''Brown'' ''Monroe'' [] [] []
        ''1990/03/22'' False))
   \<and> ''cb'' \<notin> set (the (generate_western ''Charlie'' ''Brown'' ''Monroe'' [] [] []
        ''1990/03/22'' False))"
  using western_scenario by auto

text \<open>
  Claim C4. For every input, \<open>generate_chinese\<close> returns a sequence whose strings have 6 to
  16 characters, \<open>generate_western\<close> one whose strings have 6 to 18 characters, and neither
  sequence contains an element twice.
\<close>

theorem length_window_and_distinct:
  "(\<exists>r. generate_chinese last' first' alias alias2 year dob full = Some r
      \<and> (\<forall>x \<in> set r. 6 \<le> length x \<and> length x \<le> 16) \<and> distinct r)
   \<and> (\<exists>r. generate_western first' last' middle alias alias2 year dob full = Some r
      \<and> (\<forall>x \<in> set r. 6 \<le> length x \<and> length x \<le> 18) \<and> distinct r)"
proof
  obtain tk where "chinese_tokens last' first' alias alias2 year dob = Some tk"
    using chinese_tokens_total by blast
  then have "generate_chinese last' first' alias alias2 year dob full
      = Some (trim (chinese_combos tk full) MAX_LEN_CN)"
    by (rule generate_chinese_eq)
  moreover have "\<forall>x \<in> set (trim (chinese_combos tk full) MAX_LEN_CN). 6 \<le> length x \<and> length x \<le> 16"
    using trim_window [of _ "chinese_combos tk full" MAX_LEN_CN] by (simp add: MAX_LEN_CN_def)
  ultimately show "\<exists>r. generate_chinese last' first' alias alias2 year dob full = Some r
      \<and> (\<forall>x \<in> set r. 6 \<le> length x \<and> length x \<le> 16) \<and> distinct r"
    using distinct_trim by blast
next
  obtain tk where "western_tokens first' last' middle alias alias2 year dob = Some tk"
    using western_tokens_total by blast
  then have "generate_western first' last' middle alias alias2 year dob full
      = Some (trim (western_combos tk full) MAX_LEN_EN)"
    by (rule generate_western_eq)
  moreover have "\<forall>x \<in> set (trim (western_combos tk full) MAX_LEN_EN). 6 \<le> length x \<and> length x \<le> 18"
    using trim_window [of _ "western_combos tk full" MAX_LEN_EN] by (simp add: MAX_LEN_EN_def)
  ultimately show "\<exists>r. generate_western first' last' middle alias alias2 year dob full = Some r
      \<and> (\<forall>x \<in> set r. 6 \<le> length x \<and> length x \<le> 18) \<and> distinct r"
    using distinct_trim by blast
qed

theorem length_window_and_distinct_witness:
  "''tommy2001'' \<in> set (the (generate_chinese ''Chan'' ''Tai Man'' ''Tommy'' [] [] ''2001/10/15'' False))
   \<and> 6 \<le> length ''tommy2001'' \<and> length ''tommy2001'' \<le> 16
   \<and> distinct (the (generate_chinese ''Chan'' ''Tai Man'' ''Tommy'' [] [] ''2001/10/15'' False))
   \<and> ''cmb0322'' \<in> set (the (generate_western ''Charlie'' ''Brown'' ''Monroe'' [] [] [] ''1990/03/22'' False))
   \<and> 6 \<le> length ''cmb0322'' \<and> length ''cmb0322'' \<le> 18
   \<and> distinct (the (generate_western ''Charlie'' ''Brown'' ''Monroe'' [] [] [] ''1990/03/22'' False))"
proof -
  have c: "''tommy2001'' \<in> set (the (generate_chinese ''Chan'' ''Tai Man'' ''Tommy'' [] [] ''2001/10/15'' False))"
    unfolding generate_chinese_scenario by simp
  have w: "''cmb0322'' \<in> set (the (generate_western ''Charlie'' ''Brown'' ''Monroe'' [] [] [] ''1990/03/22'' False))"
    unfolding generate_western_scenario by simp
  show ?thesis
    using c w length_window_and_distinct [of "''Chan''" "''Tai Man''" "''Tommy''" "[]" "[]" "''2001/10/15''" False "[]"]
      length_window_and_distinct [of "''Brown''" "''Charlie''" "[]" "[]" "[]" "''1990/03/22''" False "''Monroe''"]
    by auto
qed

subsection \<open>Full mode and the absence of errors\<close>

lemma prefix_set_mono: "prefix xs ys \<Longrightarrow> set xs \<subseteq> set ys"
  by (auto simp: prefix_def)

text \<open>
  Claim C7. For every input of \<open>generate_chinese\<close>, and likewise of \<open>generate_western\<close>,
  every candidate returned with \<open>full = False\<close> is also returned with \<open>full = True\<close>: the
  default result is even a prefix of the full result, since full mode only appends
  candidates and the same filter runs over both.
\<close>

theorem full_mode_extends_default:
  "(\<exists>r0 r1. generate_chinese last' first' alias alias2 year dob False = Some r0
      \<and> generate_chinese last' first' alias alias2 year dob True = Some r1
      \<and> set r0 \<subseteq> set r1 \<and> prefix r0 r1)
   \<and> (\<exists>r0 r1. generate_western first' last' middle alias alias2 year dob False = Some r0
      \<and> generate_western first' last' middle alias alias2 year dob True = Some r1
      \<and> set r0 \<subseteq> set r1 \<and> prefix r0 r1)"
proof
  obtain tk where tk: "chinese_tokens last' first' alias alias2 year dob = Some tk"
    using chinese_tokens_total by blast
  have "prefix (trim (chinese_combos tk False) MAX_LEN_CN) (trim (chinese_combos tk True) MAX_LEN_CN)"
    by (simp add: chinese_combos_def prefix_trim_append)
  then show "\<exists>r0 r1. generate_chinese last' first' alias alias2 year dob False = Some r0
      \<and> generate_chinese last' first' alias alias2 year dob True = Some r1
      \<and> set r0 \<subseteq> set r1 \<and> prefix r0 r1"
    using generate_chinese_eq [OF tk] prefix_set_mono by blast
next
  obtain tk where tk: "western_tokens first' last' middle alias alias2 year dob = Some tk"
    using western_tokens_total by blast
  have "prefix (trim (western_combos tk False) MAX_LEN_EN) (trim (western_combos tk True) MAX_LEN_EN)"
    by (simp add: western_combos_def prefix_trim_append)
  then show "\<exists>r0 r1. generate_western first' last' middle alias alias2 year dob False = Some r0
      \<and> generate_western first' last' middle alias alias2 year dob True = Some r1
      \<and> set r0 \<subseteq> set r1 \<and> prefix r0 r1"
    using generate_western_eq [OF tk] prefix_set_mono by blast
qed

theorem full_mode_extends_default_witness:
  "''tommyctm'' \<in> set (the (generate_chinese ''Chan'' ''Tai Man'' ''Tommy'' [] [] ''2001/10/15'' True))
   \<and> ''cmb0322'' \<in> set (the (generate_western ''Charlie'' ''Brown'' ''Monroe'' [] [] [] ''1990/03/22'' True))"
proof -
  have c: "''tommyctm'' \<in> set (the (generate_chinese ''Chan'' ''Tai Man'' ''Tommy'' [] [] ''2001/10/15'' False))"
    unfolding generate_chinese_scenario by simp
  have w: "''cmb0322'' \<in> set (the (generate_western ''Charlie'' ''Brown'' ''Monroe'' [] [] [] ''1990/03/22'' False))"
    unfolding generate_western_scenario by simp
  show ?thesis
    using c w
      full_mode_extends_default [of "''Chan''" "''Tai Man''" "''Tommy''" "[]" "[]" "''2001/10/15''" "[]"]
      full_mode_extends_default [of "''Brown''" "''Charlie''" "[]" "[]" "[]" "''1990/03/22''" "''Monroe''"]
    by auto
qed

text \<open>
  Claim C8. For all string inputs, \<open>generate_chinese\<close>, \<open>generate_western\<close> and
  \<open>parse_dates\<close> return a value (no subscript is out of range, so nothing raises). For a
  dob that does not split into exactly 3 parts, \<open>parse_dates\<close> returns empty day and
  month-day components, while \<open>yr4\<close> and \<open>yr2\<close> still come from the year: the result is
  that for an empty dob.
\<close>

theorem no_exception_and_malformed_dob:
  "(\<exists>r. generate_chinese last' first' alias alias2 year dob full = Some r)
   \<and> (\<exists>r. generate_western first' last' middle alias alias2 year dob full = Some r)
   \<and> (\<exists>dt. parse_dates year dob = Some dt)
   \<and> (length (dob_parts dob) \<noteq> 3 \<longrightarrow>
        parse_dates year dob =
          Some (last_n 4 (strip year), last_n 2 (last_n 4 (strip year)), [], [])
        \<and> parse_dates year dob = parse_dates year [])"
proof -
  have 1: "\<exists>r. generate_chinese last' first' alias alias2 year dob full = Some r"
    using chinese_tokens_total generate_chinese_eq by blast
  have 2: "\<exists>r. generate_western first' last' middle alias alias2 year dob full = Some r"
    using western_tokens_total generate_western_eq by blast
  have 3: "length (dob_parts dob) \<noteq> 3 \<longrightarrow>
        parse_dates year dob =
          Some (last_n 4 (strip year), last_n 2 (last_n 4 (strip year)), [], [])
        \<and> parse_dates year dob = parse_dates year []"
    by (simp add: parse_dates_no_dob)
  show ?thesis
    using 1 2 3 parse_dates_total by blast
qed

theorem no_exception_and_malformed_dob_witness:
  "length (dob_parts ''2001/10'') \<noteq> 3
   \<and> parse_dates ''1999'' ''2001/10'' = Some (''1999'', ''99'', [], [])
   \<and> generate_chinese ''Chan'' ''Tai Man'' ''Tommy'' [] ''1999'' ''2001/10'' False \<noteq> None"
proof -
  have h: "length (dob_parts ''2001/10'') \<noteq> 3"
    by code_simp
  have e: "last_n 4 (strip ''1999'') = ''1999'' \<and> last_n 2 ''1999'' = ''99''"
    by code_simp
  show ?thesis
    using h e no_exception_and_malformed_dob
      [of "''Chan''" "''Tai Man''" "''Tommy''" "[]" "''1999''" "''2001/10''" False "[]"]
    by auto
qed

subsection \<open>The date parser\<close>

lemma split_on_not_Nil [simp]: "split_on sep s \<noteq> []"
  by (induction s) (auto split: list.splits)

lemma set_split_on: "x \<in> set (split_on sep s) \<Longrightarrow> set x \<subseteq> set s"
proof (induction s arbitrary: x)
  case Nil
  then show ?case by simp
next
  case (Cons c cs)
  show ?case
  proof (cases "c = sep")
    case True
    with Cons show ?thesis by auto
  next
    case False
    obtain w ws where ws: "split_on sep cs = w # ws"
      by (cases "split_on sep cs") simp_all
    with False Cons.prems have "x = c # w \<or> x \<in> set ws" by simp
    then show ?thesis
      using Cons.IH [of w] Cons.IH [of x] ws by auto
  qed
qed

lemma dob_parts_no_dash: "x \<in> set (dob_parts dob) \<Longrightarrow> CHR ''-'' \<notin> set x"
proof -
  assume "x \<in> set (dob_parts dob)"
  then have "set x \<subseteq> set (replace_char CHR ''-'' CHR ''/'' (strip dob))"
    unfolding dob_parts_def by (rule set_split_on)
  then show ?thesis by (auto simp: replace_char_def)
qed

lemma dob_parts_Nil: "dob_parts [] = [[]]"
  by (simp add: dob_parts_def replace_char_def)

lemma length_zfill: "length (zfill w s) = max w (length s)"
  by (auto simp: zfill_def split: list.splits)

lemma zfill_unsigned:
  "s = [] \<or> (hd s \<noteq> CHR ''+'' \<and> hd s \<noteq> CHR ''-'') \<Longrightarrow>
   zfill w s = replicate (w - length s) CHR ''0'' @ s"
  by (auto simp: zfill_def split: list.splits)

lemma zfill_dob_part:
  assumes "p \<in> set (dob_parts dob)" and "p = [] \<or> hd p \<noteq> CHR ''+''"
  shows "zfill w p = replicate (w - length p) CHR ''0'' @ p"
proof -
  have "CHR ''-'' \<notin> set p"
    using assms(1) by (rule dob_parts_no_dash)
  then have "p = [] \<or> hd p \<noteq> CHR ''-''"
    by (cases p) auto
  with assms(2) show ?thesis
    by (intro zfill_unsigned) auto
qed

lemma parse_dates_yr2:
  "parse_dates year dob = Some (yr4, yr2, dy2, md) \<Longrightarrow> yr2 = last_n 2 yr4"
proof (cases "dob = [] \<or> length (dob_parts dob) \<noteq> 3")
  case True
  assume "parse_dates year dob = Some (yr4, yr2, dy2, md)"
  with True show ?thesis by (auto simp: parse_dates_no_dob)
next
  case False
  assume p: "parse_dates year dob = Some (yr4, yr2, dy2, md)"
  from False obtain y m d where "dob_parts dob = [y, m, d]"
    by (auto elim: length3E)
  with False p show ?thesis by (auto simp: parse_dates_three split: if_splits)
qed

text \<open>
  A year that is not empty but consists of whitespace is trimmed to the empty string, so
  \<open>yr4\<close> is still empty when the dob is read and is taken from the dob: it is not the
  last 4 characters of the trimmed year.
\<close>

theorem parse_dates_year_counterexample:
  "'' '' \<noteq> [] \<and> parse_dates '' '' ''2001/10/15'' = Some (''2001'', ''01'', ''15'', ''1015'')
   \<and> last_n 4 (strip '' '') \<noteq> ''2001''"
  by code_simp

text \<open>
  Claim C5, amended. For every year and dob, \<open>parse_dates\<close> returns \<open>(yr4, yr2, dy2, md)\<close>
  where \<open>yr2\<close> is the last 2 characters of \<open>yr4\<close>, and \<open>yr4\<close> is the last 4 characters of
  the trimmed year whenever the trimmed year is not empty. If the trimmed dob, with every
  \<open>-\<close> read as \<open>/\<close>, splits into exactly three parts \<open>y\<close>, \<open>m\<close>, \<open>d\<close>, then \<open>yr4\<close> is \<open>y\<close>
  when the trimmed year is empty (no year, or only whitespace), \<open>dy2\<close> is the last 2
  characters of the padded day and \<open>md\<close> is the padded month followed by the padded day.
  Padding is \<^verbatim>\<open>zfill(2)\<close>: the result has at least 2 characters, and zeros are put on the
  left (for a part that starts with \<open>+\<close>, after that sign).
\<close>

theorem parse_dates_components:
  "(\<exists>yr4 yr2 dy2 md. parse_dates year dob = Some (yr4, yr2, dy2, md)
      \<and> yr2 = last_n 2 yr4
      \<and> (strip year \<noteq> [] \<longrightarrow> yr4 = last_n 4 (strip year))
      \<and> (dob_parts dob = [y, m, d] \<longrightarrow>
           (strip year = [] \<longrightarrow> yr4 = y)
           \<and> dy2 = last_n 2 (zfill 2 d)
           \<and> md = zfill 2 m @ zfill 2 d))
   \<and> (dob_parts dob = [y, m, d] \<longrightarrow>
        length (zfill 2 m) = max 2 (length m) \<and> length (zfill 2 d) = max 2 (length d)
        \<and> (m = [] \<or> hd m \<noteq> CHR ''+'' \<longrightarrow> zfill 2 m = replicate (2 - length m) CHR ''0'' @ m)
        \<and> (d = [] \<or> hd d \<noteq> CHR ''+'' \<longrightarrow> zfill 2 d = replicate (2 - length d) CHR ''0'' @ d))"
proof
  obtain dt where "parse_dates year dob = Some dt"
    using parse_dates_total by blast
  then obtain yr4 yr2 dy2 md where p: "parse_dates year dob = Some (yr4, yr2, dy2, md)"
    by (cases dt) auto
  have a: "yr2 = last_n 2 yr4"
    using p by (rule parse_dates_yr2)
  have b: "strip year \<noteq> [] \<longrightarrow> yr4 = last_n 4 (strip year)"
  proof (cases "dob = [] \<or> length (dob_parts dob) \<noteq> 3")
    case True
    with p show ?thesis by (simp add: parse_dates_no_dob)
  next
    case False
    then obtain y' m' d' where "dob_parts dob = [y', m', d']"
      by (auto elim: length3E)
    with False p show ?thesis by (auto simp: parse_dates_three)
  qed
  have c: "dob_parts dob = [y, m, d] \<longrightarrow>
           (strip year = [] \<longrightarrow> yr4 = y) \<and> dy2 = last_n 2 (zfill 2 d) \<and> md = zfill 2 m @ zfill 2 d"
  proof
    assume parts: "dob_parts dob = [y, m, d]"
    then have "dob \<noteq> []" by (auto simp: dob_parts_Nil)
    with parts p show "(strip year = [] \<longrightarrow> yr4 = y) \<and> dy2 = last_n 2 (zfill 2 d)
        \<and> md = zfill 2 m @ zfill 2 d"
      by (auto simp: parse_dates_three)
  qed
  show "\<exists>yr4 yr2 dy2 md. parse_dates year dob = Some (yr4, yr2, dy2, md)
      \<and> yr2 = last_n 2 yr4
      \<and> (strip year \<noteq> [] \<longrightarrow> yr4 = last_n 4 (strip year))
      \<and> (dob_parts dob = [y, m, d] \<longrightarrow>
           (strip year = [] \<longrightarrow> yr4 = y)
           \<and> dy2 = last_n 2 (zfill 2 d)
           \<and> md = zfill 2 m @ zfill 2 d)"
    using p a b c by blast
next
  show "dob_parts dob = [y, m, d] \<longrightarrow>
        length (zfill 2 m) = max 2 (length m) \<and> length (zfill 2 d) = max 2 (length d)
        \<and> (m = [] \<or> hd m \<noteq> CHR ''+'' \<longrightarrow> zfill 2 m = replicate (2 - length m) CHR ''0'' @ m)
        \<and> (d = [] \<or> hd d \<noteq> CHR ''+'' \<longrightarrow> zfill 2 d = replicate (2 - length d) CHR ''0'' @ d)"
  proof
    assume parts: "dob_parts dob = [y, m, d]"
    then have "m \<in> set (dob_parts dob)" and "d \<in> set (dob_parts dob)" by simp_all
    then show "length (zfill 2 m) = max 2 (length m) \<and> length (zfill 2 d) = max 2 (length d)
        \<and> (m = [] \<or> hd m \<noteq> CHR ''+'' \<longrightarrow> zfill 2 m = replicate (2 - length m) CHR ''0'' @ m)
        \<and> (d = [] \<or> hd d \<noteq> CHR ''+'' \<longrightarrow> zfill 2 d = replicate (2 - length d) CHR ''0'' @ d)"
      using zfill_dob_part [of m dob 2] zfill_dob_part [of d dob 2]
      by (simp add: length_zfill)
  qed
qed

theorem parse_dates_components_witness:
  "strip ''1999'' \<noteq> [] \<and> dob_parts ''2001-3-5'' = [''2001'', ''3'', ''5'']
   \<and> parse_dates ''1999'' ''2001-3-5'' = Some (''1999'', ''99'', ''05'', ''0305'')
   \<and> strip [] = [] \<and> parse_dates [] ''2001-3-5'' = Some (''2001'', ''01'', ''05'', ''0305'')"
proof -
  have h: "strip ''1999'' \<noteq> [] \<and> dob_parts ''2001-3-5'' = [''2001'', ''3'', ''5''] \<and> strip [] = []"
    by code_simp
  have e: "last_n 4 (strip ''1999'') = ''1999'' \<and> last_n 2 ''1999'' = ''99''
      \<and> last_n 2 ''2001'' = ''01''
      \<and> zfill 2 ''3'' = ''03'' \<and> zfill 2 ''5'' = ''05'' \<and> last_n 2 ''05'' = ''05''"
    by code_simp
  show ?thesis
    using h e
      parse_dates_components [of "''1999''" "''2001-3-5''" "''2001''" "''3''" "''5''"]
      parse_dates_components [of "[]" "''2001-3-5''" "''2001''" "''3''" "''5''"]
    by auto
qed

subsection \<open>The date suffixes of the tokens\<close>

lemma chinese_tokens_dates:
  "parse_dates year dob = Some dt \<Longrightarrow>
   \<exists>tk. chinese_tokens l f a a2 year dob = Some tk \<and> cn_dates tk = date_list dt"
  by (simp add: chinese_tokens_def ini_eq subscript_def Let_def)

lemma western_tokens_dates:
  "parse_dates year dob = Some dt \<Longrightarrow>
   \<exists>tk. western_tokens f l m a a2 year dob = Some tk \<and> en_dates tk = date_list dt"
  by (simp add: western_tokens_def ini_eq Let_def)

lemma zfill_not_Nil [simp]: "0 < w \<Longrightarrow> zfill w s \<noteq> []"
  using length_zfill [of w s] by auto

subsection \<open>The dot automaton\<close>

lemma isspace_dot [simp]: "\<not> isspace CHR ''.''"
  by (simp add: isspace_def)

lemma rstrip_Nil [simp]: "rstrip [] = []"
  by (simp add: rstrip_def)

lemma rstrip_snoc: "rstrip (p @ [c]) = (if isspace c then rstrip p else p @ [c])"
  by (simp add: rstrip_def)

lemma rstrip_prefix: "prefix (rstrip p) p"
proof (induction p rule: rev_induct)
  case Nil
  show ?case by simp
next
  case (snoc c p)
  then show ?case by (auto simp: rstrip_snoc)
qed

lemma rstrip_id: "p \<noteq> [] \<Longrightarrow> \<not> isspace (last p) \<Longrightarrow> rstrip p = p"
  by (cases p rule: rev_cases) (auto simp: rstrip_snoc)

lemma strip_eq_rstrip: "strip x = rstrip (dropWhile isspace x)"
  by (simp add: strip_def rstrip_def)

lemma no_double_dot_snoc:
  "no_double_dot (p @ [c]) =
     (no_double_dot p \<and> \<not> (p \<noteq> [] \<and> last p = CHR ''.'' \<and> c = CHR ''.''))"
  by (induction p rule: no_double_dot.induct) auto

lemma no_double_dot_append_left: "no_double_dot (p @ w) \<Longrightarrow> no_double_dot p"
  by (induction w rule: rev_induct) (auto simp: no_double_dot_snoc simp flip: append_assoc)

lemma no_double_dot_prefix: "prefix p x \<Longrightarrow> no_double_dot x \<Longrightarrow> no_double_dot p"
  by (auto simp: prefix_def dest: no_double_dot_append_left)

lemma dot_run_Nil [simp]: "dot_run q [] = q"
  by (simp add: dot_run_def)

lemma dot_run_snoc: "dot_run q (p @ [c]) = dot_step (dot_run q p) c"
  by (simp add: dot_run_def)

lemma dot_run_append: "dot_run q (x @ y) = dot_run (dot_run q x) y"
  by (simp add: dot_run_def)

lemma dot_run_Cons: "dot_run q (c # y) = dot_run (dot_step q c) y"
  by (simp add: dot_run_def)

lemma dot_inv_step:
  assumes "dot_inv q p" and "p = [] \<longrightarrow> \<not> isspace c"
  shows "dot_inv (dot_step q c) (p @ [c])"
  using assms
  by (cases q) (auto simp: rstrip_snoc rstrip_id no_double_dot_snoc)

lemma dot_inv_run:
  "p = [] \<or> \<not> isspace (hd p) \<Longrightarrow> dot_inv (dot_run DStart p) p"
proof (induction p rule: rev_induct)
  case Nil
  show ?case by simp
next
  case (snoc c p)
  from snoc.prems have a: "p = [] \<or> \<not> isspace (hd p)" and b: "p = [] \<longrightarrow> \<not> isspace c"
    by (cases p; simp)+
  from snoc.IH [OF a] b show ?case
    unfolding dot_run_snoc by (rule dot_inv_step)
qed

lemma dot_run_skip: "dot_run DStart x = dot_run DStart (dropWhile isspace x)"
  by (induction x) (auto simp: dot_run_Cons)

lemma dropWhile_hd: "dropWhile P x = [] \<or> \<not> P (hd (dropWhile P x))"
  using hd_dropWhile by blast

lemma take_1_eq: "take 1 y = (if y = [] then [] else [hd y])"
  by (cases y) auto

lemma take_1_rev_eq: "take 1 (rev y) = (if y = [] then [] else [last y])"
  by (cases y rule: rev_cases) auto

lemma dot_well_formed_iff:
  "dot_well_formed y = (y = [] \<or> (hd y \<noteq> CHR ''.'' \<and> last y \<noteq> CHR ''.'' \<and> no_double_dot y))"
  unfolding dot_well_formed_def take_1_rev_eq by (cases y) auto

text \<open>
  The automaton is sound: if it accepts a candidate, the stripped candidate is
  dot-well-formed.
\<close>

lemma dot_accept_sound:
  assumes "dot_accept (dot_run DStart x)"
  shows "dot_well_formed (strip x)"
proof -
  let ?y = "dropWhile isspace x"
  have inv: "dot_inv (dot_run DStart ?y) ?y"
    by (rule dot_inv_run) (rule dropWhile_hd)
  have acc: "dot_accept (dot_run DStart ?y)"
    using assms dot_run_skip [of x] by simp
  have pre: "prefix (rstrip ?y) ?y" by (rule rstrip_prefix)
  consider "dot_run DStart ?y = DStart" | "dot_run DStart ?y = DSeg" | "dot_run DStart ?y = DSegWs"
    using acc by (auto simp: dot_accept_def)
  then have "dot_well_formed (rstrip ?y)"
  proof cases
    case 1
    with inv have e: "dropWhile isspace x = []" by simp
    show ?thesis unfolding e by (simp add: dot_well_formed_iff)
  next
    case 2
    with inv have "rstrip ?y = ?y"
      by (cases ?y rule: rev_cases) (auto simp: rstrip_snoc)
    with 2 inv show ?thesis by (simp add: dot_well_formed_iff)
  next
    case 3
    with inv have *: "rstrip ?y \<noteq> []" "last (rstrip ?y) \<noteq> CHR ''.''" "hd ?y \<noteq> CHR ''.''"
        "no_double_dot ?y" by simp_all
    from pre * have "hd (rstrip ?y) = hd ?y"
      by (auto simp: prefix_def) (metis hd_append2)
    moreover have "no_double_dot (rstrip ?y)"
      using pre *(4) by (rule no_double_dot_prefix)
    ultimately show ?thesis using * by (simp add: dot_well_formed_iff)
  qed
  then show ?thesis by (simp add: strip_eq_rstrip)
qed

subsection \<open>The automaton accepts every candidate\<close>

lemma dot_run_nodot_not_bad:
  "CHR ''.'' \<notin> set t \<Longrightarrow> q \<noteq> DBad \<Longrightarrow> dot_run q t \<noteq> DBad"
proof (induction t arbitrary: q)
  case Nil
  then show ?case by simp
next
  case (Cons c t)
  then have "dot_step q c \<noteq> DBad" by (cases q) auto
  with Cons show ?case by (simp add: dot_run_Cons)
qed

lemma dot_run_name_tok:
  assumes "name_tok t" and "t \<noteq> []" and "q \<noteq> DBad"
  shows "dot_run q t = DSeg"
proof -
  from assms(2) obtain p c where t: "t = p @ [c]"
    by (cases t rule: rev_cases) auto
  with assms(1) have c: "c \<noteq> CHR ''.''" "\<not> isspace c" and p: "CHR ''.'' \<notin> set p"
    by (auto simp: name_tok_def)
  have "dot_run q p \<noteq> DBad"
    using p assms(3) by (rule dot_run_nodot_not_bad)
  with c show ?thesis
    unfolding t dot_run_snoc by (cases "dot_run q p") auto
qed

lemma dot_run_nodot_seg:
  "CHR ''.'' \<notin> set d \<Longrightarrow> q = DSeg \<or> q = DSegWs \<Longrightarrow> dot_run q d = DSeg \<or> dot_run q d = DSegWs"
proof (induction d arbitrary: q)
  case Nil
  then show ?case by simp
next
  case (Cons c d)
  from Cons.prems have "dot_step q c = DSeg \<or> dot_step q c = DSegWs" by auto
  with Cons show ?case by (simp add: dot_run_Cons)
qed

lemma dot_accept_date:
  "CHR ''.'' \<notin> set d \<Longrightarrow> dot_accept (dot_run DSeg d)"
  using dot_run_nodot_seg [of d DSeg] by (auto simp: dot_accept_def)

lemma dot_accept_two_dates:
  "CHR ''.'' \<notin> set d \<Longrightarrow> CHR ''.'' \<notin> set e \<Longrightarrow> dot_accept (dot_run (dot_run DSeg d) e)"
  using dot_run_nodot_seg [of d DSeg] dot_run_nodot_seg [of e "dot_run DSeg d"]
  by (auto simp: dot_accept_def)

lemma dot_run_nonspace:
  "CHR ''.'' \<notin> set d \<Longrightarrow> has_nonspace d \<Longrightarrow> q \<noteq> DBad \<Longrightarrow>
   dot_run q d = DSeg \<or> dot_run q d = DSegWs"
proof (induction d arbitrary: q)
  case Nil
  then show ?case by (simp add: has_nonspace_def)
next
  case (Cons c d)
  show ?case
  proof (cases "isspace c")
    case True
    with Cons.prems have "has_nonspace d" "dot_step q c \<noteq> DBad" "CHR ''.'' \<notin> set d"
      by (cases q; auto simp: has_nonspace_def)+
    then show ?thesis using Cons.IH by (simp add: dot_run_Cons)
  next
    case False
    with Cons.prems have "dot_step q c = DSeg" by (cases q) auto
    then show ?thesis
      using Cons.prems dot_run_nodot_seg [of d DSeg] by (simp add: dot_run_Cons)
  qed
qed

lemma dot_accept_date_after_dot:
  "CHR ''.'' \<notin> set d \<Longrightarrow> has_nonspace d \<Longrightarrow> dot_accept (dot_run DDot d)"
  using dot_run_nonspace [of d DDot] by (auto simp: dot_accept_def)

lemma dot_accept_simps [simp]: "dot_accept DStart" "dot_accept DSeg" "dot_accept DSegWs"
  by (simp_all add: dot_accept_def)

lemma dot_accept_name_tok: "name_tok t \<Longrightarrow> dot_accept (dot_run DStart t)"
  by (cases "t = []") (simp_all add: dot_run_name_tok)

lemmas dot_simps = dot_run_append dot_run_Cons dot_run_name_tok dot_accept_date
  dot_accept_two_dates dot_accept_date_after_dot dot_accept_name_tok

lemma cn_tier1_dots:
  assumes "cn_dot_ok tk"
  shows "\<forall>x \<in> set (cn_tier1 tk). dot_accept (dot_run DStart x)"
  using assms unfolding cn_dot_ok_def cn_tier1_def Let_def
  by (auto simp: dot_simps)

lemma cn_tier2_dots:
  assumes "cn_dot_ok tk"
  shows "\<forall>x \<in> set (cn_tier2 tk). dot_accept (dot_run DStart x)"
  using assms unfolding cn_dot_ok_def cn_tier2_def Let_def
  by (auto simp: dot_simps)

lemma cn_tier6_dots:
  assumes "cn_dot_ok tk"
  shows "\<forall>x \<in> set (cn_tier6 tk). dot_accept (dot_run DStart x)"
  using assms unfolding cn_dot_ok_def cn_tier6_def Let_def
  by (auto simp: dot_simps)


lemma cn_tier3_dots:
  assumes "cn_dot_ok tk"
  shows "\<forall>x \<in> set (cn_tier3 tk). dot_accept (dot_run DStart x)"
  using assms unfolding cn_dot_ok_def cn_tier3_def Let_def
  by (auto simp: dot_simps)

lemma cn_tier4_dots:
  assumes "cn_dot_ok tk"
  shows "\<forall>x \<in> set (cn_tier4 tk). dot_accept (dot_run DStart x)"
  using assms unfolding cn_dot_ok_def cn_tier4_def Let_def
  by (auto simp: dot_simps)

lemma cn_tier5_dots:
  assumes "cn_dot_ok tk"
  shows "\<forall>x \<in> set (cn_tier5 tk). dot_accept (dot_run DStart x)"
  using assms unfolding cn_dot_ok_def cn_tier5_def Let_def
  by (auto simp: dot_simps)

lemma cn_tier7_dots:
  assumes "cn_dot_ok tk"
  shows "\<forall>x \<in> set (cn_tier7 tk). dot_accept (dot_run DStart x)"
  using assms unfolding cn_dot_ok_def cn_tier7_def Let_def
  by (auto simp: dot_simps)

lemma cn_tier8_dots:
  assumes "cn_dot_ok tk"
  shows "\<forall>x \<in> set (cn_tier8 tk). dot_accept (dot_run DStart x)"
  using assms unfolding cn_dot_ok_def cn_tier8_def Let_def
  by (auto simp: dot_simps)

lemma cn_tier9_dots:
  assumes "cn_dot_ok tk"
  shows "\<forall>x \<in> set (cn_tier9 tk). dot_accept (dot_run DStart x)"
  using assms unfolding cn_dot_ok_def cn_tier9_def Let_def
  by (auto simp: dot_simps)

lemma cn_tier10_dots:
  assumes "cn_dot_ok tk"
  shows "\<forall>x \<in> set (cn_tier10 tk). dot_accept (dot_run DStart x)"
  using assms unfolding cn_dot_ok_def cn_tier10_def Let_def
  by (auto simp: dot_simps)

lemma cn_alias2_dots:
  assumes "cn_dot_ok tk"
  shows "\<forall>x \<in> set (cn_alias2 tk). dot_accept (dot_run DStart x)"
  using assms unfolding cn_dot_ok_def cn_alias2_def Let_def
  by (auto simp: dot_simps)

lemma chinese_default_dots:
  assumes "cn_dot_ok tk"
  shows "\<forall>x \<in> set (chinese_default tk). dot_accept (dot_run DStart x)"
  using cn_tier1_dots [OF assms] cn_tier2_dots [OF assms] cn_tier3_dots [OF assms]
    cn_tier4_dots [OF assms] cn_tier5_dots [OF assms] cn_tier6_dots [OF assms]
    cn_tier7_dots [OF assms] cn_tier8_dots [OF assms] cn_tier9_dots [OF assms]
    cn_tier10_dots [OF assms] cn_alias2_dots [OF assms]
  unfolding chinese_default_def by (simp add: ball_Un)

lemma cn_full_alias_dots:
  assumes "cn_dot_ok tk"
  shows "\<forall>x \<in> set (cn_full_alias tk). dot_accept (dot_run DStart x)"
  using assms unfolding cn_dot_ok_def cn_full_alias_def Let_def
  by (auto simp: dot_simps)

lemma cn_full_given_dots:
  assumes "cn_dot_ok tk" and "\<forall>d \<in> set (cn_dates tk). has_nonspace d"
  shows "\<forall>x \<in> set (cn_full_given tk). dot_accept (dot_run DStart x)"
  using assms unfolding cn_dot_ok_def cn_full_given_def Let_def
  by (auto simp: dot_simps)

lemma cn_full_surname_dots:
  assumes "cn_dot_ok tk"
  shows "\<forall>x \<in> set (cn_full_surname tk). dot_accept (dot_run DStart x)"
  using assms unfolding cn_dot_ok_def cn_full_surname_def Let_def
  by (auto simp: dot_simps)

lemma cn_full_g2_dots:
  assumes "cn_dot_ok tk"
  shows "\<forall>x \<in> set (cn_full_g2 tk). dot_accept (dot_run DStart x)"
  using assms unfolding cn_dot_ok_def cn_full_g2_def Let_def
  by (auto simp: dot_simps)

lemma cn_full_alias2_dots:
  assumes "cn_dot_ok tk" and "\<forall>d \<in> set (cn_dates tk). has_nonspace d"
  shows "\<forall>x \<in> set (cn_full_alias2 tk). dot_accept (dot_run DStart x)"
  using assms unfolding cn_dot_ok_def cn_full_alias2_def Let_def
  by (auto simp: dot_simps)

lemma chinese_full_dots:
  assumes "cn_dot_ok tk" and "\<forall>d \<in> set (cn_dates tk). has_nonspace d"
  shows "\<forall>x \<in> set (chinese_full tk). dot_accept (dot_run DStart x)"
  using cn_full_alias_dots [OF assms(1)] cn_full_given_dots [OF assms]
    cn_full_surname_dots [OF assms(1)] cn_full_g2_dots [OF assms(1)]
    cn_full_alias2_dots [OF assms]
  unfolding chinese_full_def by (simp add: ball_Un)

lemma en_plain_dots:
  assumes "en_dot_ok tk"
  shows "\<forall>x \<in> set (en_plain tk). dot_accept (dot_run DStart x)"
  using assms unfolding en_dot_ok_def en_plain_def Let_def
  by (auto simp: dot_simps)

lemma en_short_dots:
  assumes "en_dot_ok tk"
  shows "\<forall>x \<in> set (en_short tk). dot_accept (dot_run DStart x)"
  using assms unfolding en_dot_ok_def en_short_def Let_def
  by (auto simp: dot_simps)

lemma en_alias_dots:
  assumes "en_dot_ok tk"
  shows "\<forall>x \<in> set (en_alias tk). dot_accept (dot_run DStart x)"
  using assms unfolding en_dot_ok_def en_alias_def Let_def
  by (auto simp: dot_simps)

lemma en_alias_date_dots:
  assumes "en_dot_ok tk"
  shows "\<forall>x \<in> set (en_alias_date tk). dot_accept (dot_run DStart x)"
  using assms unfolding en_dot_ok_def en_alias_date_def Let_def
  by (auto simp: dot_simps)

lemma en_initials_dots:
  assumes "en_dot_ok tk"
  shows "\<forall>x \<in> set (en_initials tk). dot_accept (dot_run DStart x)"
  using assms unfolding en_dot_ok_def en_initials_def Let_def
  by (auto simp: dot_simps)

lemma en_alias_initials_dots:
  assumes "en_dot_ok tk"
  shows "\<forall>x \<in> set (en_alias_initials tk). dot_accept (dot_run DStart x)"
  using assms unfolding en_dot_ok_def en_alias_initials_def Let_def
  by (auto simp: dot_simps)

lemma en_alias_last_date_dots:
  assumes "en_dot_ok tk"
  shows "\<forall>x \<in> set (en_alias_last_date tk). dot_accept (dot_run DStart x)"
  using assms unfolding en_dot_ok_def en_alias_last_date_def Let_def
  by (auto simp: dot_simps)

lemma en_date_name_dots:
  assumes "en_dot_ok tk"
  shows "\<forall>x \<in> set (en_date_name tk). dot_accept (dot_run DStart x)"
  using assms unfolding en_dot_ok_def en_date_name_def Let_def
  by (auto simp: dot_simps)

lemma en_separator_dots:
  assumes "en_dot_ok tk"
  shows "\<forall>x \<in> set (en_separator tk). dot_accept (dot_run DStart x)"
  using assms unfolding en_dot_ok_def en_separator_def Let_def
  by (auto simp: dot_simps)

lemma en_first_alias_dots:
  assumes "en_dot_ok tk"
  shows "\<forall>x \<in> set (en_first_alias tk). dot_accept (dot_run DStart x)"
  using assms unfolding en_dot_ok_def en_first_alias_def Let_def
  by (auto simp: dot_simps)

lemma en_alias2_dots:
  assumes "en_dot_ok tk"
  shows "\<forall>x \<in> set (en_alias2 tk). dot_accept (dot_run DStart x)"
  using assms unfolding en_dot_ok_def en_alias2_def Let_def
  by (auto simp: dot_simps)

lemma en_full_cores_dots:
  assumes "en_dot_ok tk" and "\<forall>d \<in> set (en_dates tk). has_nonspace d"
  shows "\<forall>x \<in> set (en_full_cores tk). dot_accept (dot_run DStart x)"
  using assms unfolding en_dot_ok_def en_full_cores_def Let_def
  by (auto simp: dot_simps)

lemma en_full_rest_dots:
  assumes "en_dot_ok tk" and "\<forall>d \<in> set (en_dates tk). has_nonspace d"
  shows "\<forall>x \<in> set (en_full_rest tk). dot_accept (dot_run DStart x)"
  using assms unfolding en_dot_ok_def en_full_rest_def Let_def
  by (auto simp: dot_simps)

lemma en_full_alias2_dots:
  assumes "en_dot_ok tk" and "\<forall>d \<in> set (en_dates tk). has_nonspace d"
  shows "\<forall>x \<in> set (en_full_alias2 tk). dot_accept (dot_run DStart x)"
  using assms en_alias2_dots [OF assms(1)] unfolding en_dot_ok_def en_full_alias2_def Let_def
  by (auto simp: dot_simps)

lemma western_default_dots:
  assumes "en_dot_ok tk"
  shows "\<forall>x \<in> set (western_default tk). dot_accept (dot_run DStart x)"
  using en_plain_dots [OF assms] en_short_dots [OF assms] en_alias_dots [OF assms]
    en_alias_date_dots [OF assms] en_initials_dots [OF assms] en_alias_initials_dots [OF assms]
    en_alias_last_date_dots [OF assms] en_date_name_dots [OF assms] en_separator_dots [OF assms]
    en_first_alias_dots [OF assms] en_alias2_dots [OF assms]
  unfolding western_default_def by (simp add: ball_Un)

lemma western_full_dots:
  assumes "en_dot_ok tk" and "\<forall>d \<in> set (en_dates tk). has_nonspace d"
  shows "\<forall>x \<in> set (western_full tk). dot_accept (dot_run DStart x)"
  using en_full_cores_dots [OF assms] en_full_alias2_dots [OF assms] en_full_rest_dots [OF assms]
  unfolding western_full_def by (simp add: ball_Un)

subsection \<open>What the tokens are made of\<close>

lemma set_strip: "set (strip x) \<subseteq> set x"
proof -
  have "set (strip x) \<subseteq> set (dropWhile isspace x)"
    unfolding strip_def using set_dropWhileD by fastforce
  also have "\<dots> \<subseteq> set x"
    using set_dropWhileD by fastforce
  finally show ?thesis .
qed

lemma dropWhile_hd_not: "dropWhile P x \<noteq> [] \<Longrightarrow> \<not> P (hd (dropWhile P x))"
  using hd_dropWhile by blast

lemma strip_ends:
  "strip x = [] \<or> (\<not> isspace (hd (strip x)) \<and> \<not> isspace (last (strip x)))"
proof (cases "strip x = []")
  case True
  then show ?thesis by simp
next
  case False
  let ?y = "dropWhile isspace x"
  have ne: "rstrip ?y \<noteq> []" using False by (simp add: strip_eq_rstrip)
  then have "?y \<noteq> []" by (metis rstrip_Nil)
  then have hy: "\<not> isspace (hd ?y)" by (rule dropWhile_hd_not)
  have "prefix (rstrip ?y) ?y" by (rule rstrip_prefix)
  with ne have hd_eq: "hd (rstrip ?y) = hd ?y"
    by (auto simp: prefix_def) (metis hd_append2)
  have "dropWhile isspace (rev ?y) \<noteq> []"
    using ne unfolding rstrip_def by (metis rev.simps(1))
  then have "\<not> isspace (hd (dropWhile isspace (rev ?y)))" by (rule dropWhile_hd_not)
  moreover have "last (rstrip ?y) = hd (dropWhile isspace (rev ?y))"
    unfolding rstrip_def by (rule last_rev)
  ultimately have "\<not> isspace (last (rstrip ?y))" by simp
  with hy hd_eq show ?thesis unfolding strip_eq_rstrip by simp
qed

lemma isspace_lower_char [simp]: "isspace (lower_char c) = isspace c"
  unfolding isspace_def lower_char_def Let_def by (auto simp: of_char_of)

lemma lower_char_eq_dot [simp]: "lower_char c = CHR ''.'' \<longleftrightarrow> c = CHR ''.''"
proof -
  have "of_char (lower_char c) = (46::nat) \<longleftrightarrow> of_char c = (46::nat)"
    unfolding lower_char_def Let_def by (auto simp: of_char_of)
  moreover have "\<And>d. of_char d = (46::nat) \<longleftrightarrow> d = CHR ''.''"
  proof -
    fix d
    have "(of_char CHR ''.'' :: nat) = 46" by simp
    then show "of_char d = (46::nat) \<longleftrightarrow> d = CHR ''.''"
      by (metis of_char_eq_iff)
  qed
  ultimately show ?thesis by simp
qed


lemma dot_eq_lower_char [simp]: "CHR ''.'' = lower_char c \<longleftrightarrow> c = CHR ''.''"
  using lower_char_eq_dot [of c] by metis

lemma set_low_dot [simp]: "CHR ''.'' \<in> set (low t) \<longleftrightarrow> CHR ''.'' \<in> set t"
  by (induction t) (auto simp: low_def)

lemma name_tok_Nil [simp]: "name_tok []"
  by (simp add: name_tok_def)

lemma name_tok_append: "name_tok x \<Longrightarrow> name_tok y \<Longrightarrow> name_tok (x @ y)"
  by (cases "x = []"; cases "y = []") (auto simp: name_tok_def)

lemma name_tok_low: "name_tok t \<Longrightarrow> name_tok (low t)"
proof (cases "t = []")
  case True
  then show ?thesis by (simp add: low_def)
next
  case False
  assume "name_tok t"
  with False have "\<not> isspace (hd t)" "\<not> isspace (last t)" "CHR ''.'' \<notin> set t"
    by (auto simp: name_tok_def)
  moreover have "hd (low t) = lower_char (hd t)" "last (low t) = lower_char (last t)"
    using False by (simp_all add: low_def hd_map last_map)
  ultimately show ?thesis
    using False by (simp add: name_tok_def)
qed

lemma name_tok_take1: "name_tok t \<Longrightarrow> name_tok (take 1 t)"
  by (cases t) (auto simp: name_tok_def)

lemma name_tok_strip: "CHR ''.'' \<notin> set x \<Longrightarrow> name_tok (strip x)"
  using set_strip [of x] strip_ends [of x] by (auto simp: name_tok_def)

lemma split_ws_from_words:
  assumes "w \<in> set (split_ws_from cur s)" and "\<forall>c \<in> set cur. \<not> isspace c"
  shows "w \<noteq> [] \<and> (\<forall>c \<in> set w. \<not> isspace c) \<and> set w \<subseteq> set cur \<union> set s"
  using assms
proof (induction s arbitrary: cur)
  case Nil
  then show ?case by (auto split: if_splits)
next
  case (Cons c s)
  show ?case
  proof (cases "isspace c")
    case True
    with Cons.prems have "w = cur \<and> cur \<noteq> [] \<or> w \<in> set (split_ws_from [] s)"
      by (auto split: if_splits)
    then show ?thesis
      using Cons.IH [of "[]"] Cons.prems(2) by auto
  next
    case False
    with Cons.prems have "w \<in> set (split_ws_from (cur @ [c]) s)" by simp
    then show ?thesis
      using Cons.IH [of "cur @ [c]"] Cons.prems(2) False by auto
  qed
qed

lemma split_ws_words:
  "w \<in> set (split_ws s) \<Longrightarrow> w \<noteq> [] \<and> (\<forall>c \<in> set w. \<not> isspace c) \<and> set w \<subseteq> set s"
  using split_ws_from_words [of w "[]" s] by (simp add: split_ws_def)

lemma split_ws_from_not_Nil:
  "cur \<noteq> [] \<or> has_nonspace s \<Longrightarrow> split_ws_from cur s \<noteq> []"
  by (induction s arbitrary: cur) (auto simp: has_nonspace_def)

lemma split_ws_not_Nil: "has_nonspace s \<Longrightarrow> split_ws s \<noteq> []"
  by (simp add: split_ws_def split_ws_from_not_Nil)

lemma name_tok_word: "w \<in> set (split_ws s) \<Longrightarrow> CHR ''.'' \<notin> set s \<Longrightarrow> name_tok w"
  using split_ws_words [of w s] by (auto simp: name_tok_def)

lemma has_nonspace_low_strip: "strip x \<noteq> [] \<Longrightarrow> has_nonspace (low (strip x))"
  using strip_ends [of x] by (cases "strip x") (auto simp: has_nonspace_def low_def)

lemma low_eq_Nil [simp]: "low t = [] \<longleftrightarrow> t = []"
  by (simp add: low_def)

lemma low_Nil [simp]: "low [] = []"
  by (simp add: low_def)

lemma low_take_1_eq_Nil [simp]: "low (take 1 t) = [] \<longleftrightarrow> t = []"
  by (cases t) (auto simp: low_def)

lemma set_last_n: "set (last_n n s) \<subseteq> set s"
  by (simp add: last_n_def set_drop_subset)

lemma set_zfill: "set (zfill w s) \<subseteq> insert CHR ''0'' (set s)"
  by (auto simp: zfill_def split: list.splits if_splits)

lemma set_dob_parts: "p \<in> set (dob_parts dob) \<Longrightarrow> set p \<subseteq> insert CHR ''/'' (set dob)"
proof -
  assume "p \<in> set (dob_parts dob)"
  then have "set p \<subseteq> set (replace_char CHR ''-'' CHR ''/'' (strip dob))"
    unfolding dob_parts_def by (rule set_split_on)
  also have "\<dots> \<subseteq> insert CHR ''/'' (set (strip dob))"
    by (auto simp: replace_char_def)
  finally show ?thesis using set_strip [of dob] by auto
qed

lemma parse_dates_chars:
  assumes "parse_dates year dob = Some (yr4, yr2, dy2, md)"
  shows "set yr4 \<union> set yr2 \<union> set dy2 \<union> set md
           \<subseteq> set year \<union> set dob \<union> {CHR ''0'', CHR ''/''}"
proof -
  let ?A = "set year \<union> set dob \<union> {CHR ''0'', CHR ''/''}"
  have yr: "set (last_n 4 (strip year)) \<subseteq> ?A"
    using set_last_n [of 4 "strip year"] set_strip [of year] by blast
  have y2: "set yr2 \<subseteq> set yr4"
    using parse_dates_yr2 [OF assms] set_last_n [of 2 yr4] by simp
  show ?thesis
  proof (cases "dob = [] \<or> length (dob_parts dob) \<noteq> 3")
    case True
    then have "parse_dates year dob =
        Some (last_n 4 (strip year), last_n 2 (last_n 4 (strip year)), [], [])"
      by (rule parse_dates_no_dob)
    with assms have "yr4 = last_n 4 (strip year)" "dy2 = []" "md = []"
      by simp_all
    with yr y2 show ?thesis by simp
  next
    case False
    then obtain y m d where parts: "dob_parts dob = [y, m, d]"
      by (auto elim: length3E)
    from False have ne: "dob \<noteq> []" by simp
    have sub: "set y \<subseteq> ?A" "set m \<subseteq> ?A" "set d \<subseteq> ?A"
      using set_dob_parts [of y dob] set_dob_parts [of m dob] set_dob_parts [of d dob] parts
      by auto
    have zm: "set (zfill 2 m) \<subseteq> ?A" and zd: "set (zfill 2 d) \<subseteq> ?A"
      using sub set_zfill [of 2 m] set_zfill [of 2 d] by auto
    have eq: "yr4 = (if strip year = [] then y else last_n 4 (strip year))"
        "dy2 = last_n 2 (zfill 2 d)" "md = zfill 2 m @ zfill 2 d"
      using assms unfolding parse_dates_three [OF ne parts] by simp_all
    have 1: "set yr4 \<subseteq> ?A"
      unfolding eq(1) using yr sub(1) by simp
    have 2: "set dy2 \<subseteq> ?A"
      unfolding eq(2) using zd set_last_n [of 2 "zfill 2 d"] by blast
    have 3: "set md \<subseteq> ?A"
      unfolding eq(3) using zm zd by simp
    from 1 2 3 y2 show ?thesis by blast
  qed
qed

lemma date_list_mem:
  "d \<in> set (date_list (yr4, yr2, dy2, md)) \<longleftrightarrow>
     d \<noteq> [] \<and> (d = yr4 \<or> d = yr2 \<or> d = md \<or> d = dy2)"
  by (simp only: date_list.simps set_filter) auto

lemma parse_dates_no_dot:
  assumes "parse_dates year dob = Some dt" and "CHR ''.'' \<notin> set year \<union> set dob"
  shows "(\<forall>d \<in> set (date_list dt). CHR ''.'' \<notin> set d)
       \<and> CHR ''.'' \<notin> set (fst (snd dt)) \<and> CHR ''.'' \<notin> set (fst (snd (snd dt)))
       \<and> CHR ''.'' \<notin> set (snd (snd (snd dt)))"
proof -
  obtain yr4 yr2 dy2 md where dt: "dt = (yr4, yr2, dy2, md)"
    by (cases dt) auto
  have "set yr4 \<union> set yr2 \<union> set dy2 \<union> set md \<subseteq> set year \<union> set dob \<union> {CHR ''0'', CHR ''/''}"
    using assms(1) unfolding dt by (rule parse_dates_chars)
  with assms(2) have nd: "CHR ''.'' \<notin> set yr4" "CHR ''.'' \<notin> set yr2" "CHR ''.'' \<notin> set dy2"
      "CHR ''.'' \<notin> set md"
    by auto
  have "\<forall>d \<in> set (date_list (yr4, yr2, dy2, md)). CHR ''.'' \<notin> set d"
    using nd by (auto simp: date_list_mem simp del: date_list.simps)
  with nd show ?thesis
    unfolding dt by (simp del: date_list.simps)
qed

lemma chinese_tokens_fieldsE:
  assumes "chinese_tokens l f a a2 year dob = Some tk"
  obtains g1 g2 dt where
    "g1 = [] \<or> g1 \<in> set (split_ws (low (strip f)))"
    "g2 = [] \<or> g2 \<in> set (split_ws (low (strip f)))"
    "split_ws (low (strip f)) \<noteq> [] \<longrightarrow> g1 \<noteq> []"
    "parse_dates year dob = Some dt"
    "tk = \<lparr>cn_s = low (strip l), cn_a = low (strip a), cn_a2 = low (strip a2),
             cn_g = g1 @ g2, cn_g2 = g2, cn_si = low (take 1 (low (strip l))),
             cn_gi = low (take 1 g1) @ low (take 1 g2),
             cn_ai = low (take 1 (low (strip a))),
             cn_init_sg = low (take 1 (low (strip l))) @ low (take 1 g1) @ low (take 1 g2),
             cn_init_as = low (take 1 (low (strip a))) @
               (if a = [] \<or> strip a = [] then [] else low (take 1 (low (strip l)))),
             cn_init_asg = low (take 1 (low (strip a))) @
               (if a = [] \<or> strip a = [] then []
                else low (take 1 (low (strip l))) @ low (take 1 g1) @ low (take 1 g2)),
             cn_yr2 = fst (snd dt), cn_dy2 = fst (snd (snd dt)), cn_dates = date_list dt\<rparr>"
proof -
  obtain dt where dt: "parse_dates year dob = Some dt"
    using parse_dates_total by blast
  let ?gp = "split_ws (low (strip f))"
  let ?g1 = "if 1 \<le> length ?gp then ?gp ! 0 else []"
  let ?g2 = "if 2 \<le> length ?gp then ?gp ! 1 else []"
  have g1: "?g1 = [] \<or> ?g1 \<in> set ?gp" by (cases ?gp) auto
  have g2: "?g2 = [] \<or> ?g2 \<in> set ?gp" by (auto intro: nth_mem)
  have g1ne: "?gp \<noteq> [] \<longrightarrow> ?g1 \<noteq> []"
    using split_ws_words [of "?gp ! 0" "low (strip f)"] by (cases ?gp) auto
  have g2ne: "?g2 \<noteq> [] \<longleftrightarrow> 2 \<le> length ?gp"
    using split_ws_words [of "?gp ! 1" "low (strip f)"] by auto
  have tk_eq: "tk = \<lparr>cn_s = low (strip l), cn_a = low (strip a), cn_a2 = low (strip a2),
             cn_g = ?g1 @ ?g2, cn_g2 = ?g2, cn_si = low (take 1 (low (strip l))),
             cn_gi = low (take 1 ?g1) @ low (take 1 ?g2),
             cn_ai = low (take 1 (low (strip a))),
             cn_init_sg = low (take 1 (low (strip l))) @ low (take 1 ?g1) @ low (take 1 ?g2),
             cn_init_as = low (take 1 (low (strip a))) @
               (if a = [] \<or> strip a = [] then [] else low (take 1 (low (strip l)))),
             cn_init_asg = low (take 1 (low (strip a))) @
               (if a = [] \<or> strip a = [] then []
                else low (take 1 (low (strip l))) @ low (take 1 ?g1) @ low (take 1 ?g2)),
             cn_yr2 = fst (snd dt), cn_dy2 = fst (snd (snd dt)), cn_dates = date_list dt\<rparr>"
    using assms dt g2ne
    by (auto simp: chinese_tokens_def ini_eq subscript_def Let_def
        simp del: date_list.simps split: if_splits)
  show thesis
    by (rule that [OF g1 g2 g1ne dt tk_eq])
qed

lemma chinese_tokens_dot_ok:
  assumes tk: "chinese_tokens l f a a2 year dob = Some tk"
    and ne: "strip f \<noteq> []" "strip l \<noteq> []"
    and nodot: "CHR ''.'' \<notin> set l \<union> set f \<union> set a \<union> set a2 \<union> set year \<union> set dob"
  shows "cn_dot_ok tk"
proof -
  from tk obtain g1 g2 dt where
    g1: "g1 = [] \<or> g1 \<in> set (split_ws (low (strip f)))" and
    g2: "g2 = [] \<or> g2 \<in> set (split_ws (low (strip f)))" and
    g1ne: "split_ws (low (strip f)) \<noteq> [] \<longrightarrow> g1 \<noteq> []" and
    dt: "parse_dates year dob = Some dt" and
    tk_eq: "tk = \<lparr>cn_s = low (strip l), cn_a = low (strip a), cn_a2 = low (strip a2),
             cn_g = g1 @ g2, cn_g2 = g2, cn_si = low (take 1 (low (strip l))),
             cn_gi = low (take 1 g1) @ low (take 1 g2),
             cn_ai = low (take 1 (low (strip a))),
             cn_init_sg = low (take 1 (low (strip l))) @ low (take 1 g1) @ low (take 1 g2),
             cn_init_as = low (take 1 (low (strip a))) @
               (if a = [] \<or> strip a = [] then [] else low (take 1 (low (strip l)))),
             cn_init_asg = low (take 1 (low (strip a))) @
               (if a = [] \<or> strip a = [] then []
                else low (take 1 (low (strip l))) @ low (take 1 g1) @ low (take 1 g2)),
             cn_yr2 = fst (snd dt), cn_dy2 = fst (snd (snd dt)), cn_dates = date_list dt\<rparr>"
    by (rule chinese_tokens_fieldsE)
  have s: "name_tok (low (strip l))"
    using nodot by (intro name_tok_low name_tok_strip) simp
  have a: "name_tok (low (strip a))"
    using nodot by (intro name_tok_low name_tok_strip) simp
  have a2: "name_tok (low (strip a2))"
    using nodot by (intro name_tok_low name_tok_strip) simp
  have fdot: "CHR ''.'' \<notin> set (low (strip f))"
    using nodot set_strip [of f] by auto
  have tg1: "name_tok g1"
    using g1 name_tok_word [OF _ fdot, of g1] by (cases "g1 = []") simp_all
  have tg2: "name_tok g2"
    using g2 name_tok_word [OF _ fdot, of g2] by (cases "g2 = []") simp_all
  have "split_ws (low (strip f)) \<noteq> []"
    using ne(1) by (intro split_ws_not_Nil has_nonspace_low_strip)
  with g1ne have g1_ne: "g1 \<noteq> []" by simp
  have ini_tok: "\<And>t. name_tok t \<Longrightarrow> name_tok (low (take 1 t))"
    by (intro name_tok_low name_tok_take1)
  have i_s: "name_tok (low (take 1 (low (strip l))))" using s by (rule ini_tok)
  have i_a: "name_tok (low (take 1 (low (strip a))))" using a by (rule ini_tok)
  have i_g1: "name_tok (low (take 1 g1))" using tg1 by (rule ini_tok)
  have i_g2: "name_tok (low (take 1 g2))" using tg2 by (rule ini_tok)
  have gi: "name_tok (low (take 1 g1) @ low (take 1 g2))"
    using i_g1 i_g2 by (rule name_tok_append)
  have sg: "name_tok (low (take 1 (low (strip l))) @ low (take 1 g1) @ low (take 1 g2))"
    using i_s gi by (rule name_tok_append)
  have as: "name_tok (low (take 1 (low (strip a))) @
               (if a = [] \<or> strip a = [] then [] else low (take 1 (low (strip l)))))"
    using i_a i_s by (intro name_tok_append) simp_all
  have asg: "name_tok (low (take 1 (low (strip a))) @
               (if a = [] \<or> strip a = [] then []
                else low (take 1 (low (strip l))) @ low (take 1 g1) @ low (take 1 g2)))"
    using i_a sg by (intro name_tok_append) simp_all
  have g: "name_tok (g1 @ g2)"
    using tg1 tg2 by (rule name_tok_append)
  have "CHR ''.'' \<notin> set year \<union> set dob"
    using nodot by blast
  then have dates: "(\<forall>d \<in> set (date_list dt). CHR ''.'' \<notin> set d)
       \<and> CHR ''.'' \<notin> set (fst (snd dt)) \<and> CHR ''.'' \<notin> set (fst (snd (snd dt)))
       \<and> CHR ''.'' \<notin> set (snd (snd (snd dt)))"
    by (rule parse_dates_no_dot [OF dt])
  show ?thesis
    unfolding cn_dot_ok_def tk_eq cn_tokens.simps
    using s a a2 tg2 i_s i_a gi sg as asg g g1_ne ne(2) dates
    by (simp del: date_list.simps)
qed

lemma western_tokens_fieldsE:
  assumes "western_tokens f l m a a2 year dob = Some tk"
  obtains dt where
    "parse_dates year dob = Some dt"
    "tk = \<lparr>en_f = low (strip f), en_l = low (strip l), en_m = low (strip m),
             en_a = low (strip a), en_a2 = low (strip a2),
             en_fi = low (take 1 (low (strip f))), en_li = low (take 1 (low (strip l))),
             en_mi = low (take 1 (low (strip m))), en_ai = low (take 1 (low (strip a))),
             en_init_fl = low (take 1 (low (strip f))) @ low (take 1 (low (strip l))),
             en_init_fml = low (take 1 (low (strip f))) @ low (take 1 (low (strip m)))
               @ low (take 1 (low (strip l))),
             en_ml = low (strip m) @ (if m = [] \<or> strip m = [] then [] else low (strip l)),
             en_yr2 = fst (snd dt), en_dy2 = fst (snd (snd dt)), en_md = snd (snd (snd dt)),
             en_dates = date_list dt\<rparr>"
proof -
  obtain dt where dt: "parse_dates year dob = Some dt"
    using parse_dates_total by blast
  have tk_eq: "tk = \<lparr>en_f = low (strip f), en_l = low (strip l), en_m = low (strip m),
             en_a = low (strip a), en_a2 = low (strip a2),
             en_fi = low (take 1 (low (strip f))), en_li = low (take 1 (low (strip l))),
             en_mi = low (take 1 (low (strip m))), en_ai = low (take 1 (low (strip a))),
             en_init_fl = low (take 1 (low (strip f))) @ low (take 1 (low (strip l))),
             en_init_fml = low (take 1 (low (strip f))) @ low (take 1 (low (strip m)))
               @ low (take 1 (low (strip l))),
             en_ml = low (strip m) @ (if m = [] \<or> strip m = [] then [] else low (strip l)),
             en_yr2 = fst (snd dt), en_dy2 = fst (snd (snd dt)), en_md = snd (snd (snd dt)),
             en_dates = date_list dt\<rparr>"
    using assms dt
    by (auto simp: western_tokens_def ini_eq Let_def simp del: date_list.simps split: if_splits)
  show thesis
    by (rule that [OF dt tk_eq])
qed

lemma western_tokens_dot_ok:
  assumes tk: "western_tokens f l m a a2 year dob = Some tk"
    and ne: "strip f \<noteq> []" "strip l \<noteq> []"
    and nodot: "CHR ''.'' \<notin> set f \<union> set l \<union> set m \<union> set a \<union> set a2 \<union> set year \<union> set dob"
  shows "en_dot_ok tk"
proof -
  from tk obtain dt where
    dt: "parse_dates year dob = Some dt" and
    tk_eq: "tk = \<lparr>en_f = low (strip f), en_l = low (strip l), en_m = low (strip m),
             en_a = low (strip a), en_a2 = low (strip a2),
             en_fi = low (take 1 (low (strip f))), en_li = low (take 1 (low (strip l))),
             en_mi = low (take 1 (low (strip m))), en_ai = low (take 1 (low (strip a))),
             en_init_fl = low (take 1 (low (strip f))) @ low (take 1 (low (strip l))),
             en_init_fml = low (take 1 (low (strip f))) @ low (take 1 (low (strip m)))
               @ low (take 1 (low (strip l))),
             en_ml = low (strip m) @ (if m = [] \<or> strip m = [] then [] else low (strip l)),
             en_yr2 = fst (snd dt), en_dy2 = fst (snd (snd dt)), en_md = snd (snd (snd dt)),
             en_dates = date_list dt\<rparr>"
    by (rule western_tokens_fieldsE)
  have f: "name_tok (low (strip f))"
    using nodot by (intro name_tok_low name_tok_strip) simp
  have l: "name_tok (low (strip l))"
    using nodot by (intro name_tok_low name_tok_strip) simp
  have m: "name_tok (low (strip m))"
    using nodot by (intro name_tok_low name_tok_strip) simp
  have a: "name_tok (low (strip a))"
    using nodot by (intro name_tok_low name_tok_strip) simp
  have a2: "name_tok (low (strip a2))"
    using nodot by (intro name_tok_low name_tok_strip) simp
  have ini_tok: "\<And>t. name_tok t \<Longrightarrow> name_tok (low (take 1 t))"
    by (intro name_tok_low name_tok_take1)
  have i_f: "name_tok (low (take 1 (low (strip f))))" using f by (rule ini_tok)
  have i_l: "name_tok (low (take 1 (low (strip l))))" using l by (rule ini_tok)
  have i_m: "name_tok (low (take 1 (low (strip m))))" using m by (rule ini_tok)
  have i_a: "name_tok (low (take 1 (low (strip a))))" using a by (rule ini_tok)
  have fl: "name_tok (low (take 1 (low (strip f))) @ low (take 1 (low (strip l))))"
    using i_f i_l by (rule name_tok_append)
  have ml0: "name_tok (low (take 1 (low (strip m))) @ low (take 1 (low (strip l))))"
    using i_m i_l by (rule name_tok_append)
  have fml: "name_tok (low (take 1 (low (strip f))) @ low (take 1 (low (strip m)))
               @ low (take 1 (low (strip l))))"
    using i_f ml0 by (rule name_tok_append)
  have ml: "name_tok (low (strip m) @ (if m = [] \<or> strip m = [] then [] else low (strip l)))"
    using m l by (intro name_tok_append) simp_all
  have "CHR ''.'' \<notin> set year \<union> set dob"
    using nodot by blast
  then have dates: "(\<forall>d \<in> set (date_list dt). CHR ''.'' \<notin> set d)
       \<and> CHR ''.'' \<notin> set (fst (snd dt)) \<and> CHR ''.'' \<notin> set (fst (snd (snd dt)))
       \<and> CHR ''.'' \<notin> set (snd (snd (snd dt)))"
    by (rule parse_dates_no_dot [OF dt])
  show ?thesis
    unfolding en_dot_ok_def tk_eq en_tokens.simps
    using f l m a a2 i_f i_l i_m i_a fl fml ml ne dates
    by (simp del: date_list.simps)
qed

subsection \<open>Every dot separates two non-empty segments\<close>

lemma chinese_combos_dots:
  assumes "cn_dot_ok tk" and "full \<longrightarrow> (\<forall>d \<in> set (cn_dates tk). has_nonspace d)"
  shows "\<forall>x \<in> set (chinese_combos tk full). dot_accept (dot_run DStart x)"
  using chinese_default_dots [OF assms(1)] chinese_full_dots [OF assms(1)] assms(2)
  unfolding chinese_combos_def by (cases full) (simp_all add: ball_Un)

lemma western_combos_dots:
  assumes "en_dot_ok tk" and "full \<longrightarrow> (\<forall>d \<in> set (en_dates tk). has_nonspace d)"
  shows "\<forall>x \<in> set (western_combos tk full). dot_accept (dot_run DStart x)"
  using western_default_dots [OF assms(1)] western_full_dots [OF assms(1)] assms(2)
  unfolding western_combos_def by (cases full) (simp_all add: ball_Un)

lemma trim_dots:
  assumes "\<forall>x \<in> set lst. dot_accept (dot_run DStart x)"
  shows "\<forall>y \<in> set (trim lst maxlen). dot_well_formed y"
  using assms dot_accept_sound by (auto simp: set_trim)

text \<open>
  A field that itself contains a dot breaks the property: for the first name \<^verbatim>\<open>J.\<close> and
  the last name \<^verbatim>\<open>Smith\<close> the candidate \<open>f + "." + l\<close> has two dots in a row.
\<close>

theorem dots_counterexample:
  "strip ''J.'' \<noteq> [] \<and> strip ''Smith'' \<noteq> []
   \<and> ''j..smith'' \<in> set (the (generate_western ''J.'' ''Smith'' [] [] [] [] [] False))
   \<and> \<not> dot_well_formed ''j..smith''"
  by code_simp

text \<open>
  Without any dot in the input, full mode can still return a string that ends with a dot:
  for the dob \<^verbatim>\<open>x  /10/15\<close> the year part keeps two trailing blanks, \<open>yr2\<close> consists of
  these blanks, and \<open>trim\<close> strips them from the candidate \<open>g + "." + yr2\<close>.
\<close>

lemma dots_blank_date_example:
  "CHR ''.'' \<notin> set ''Chan'' \<union> set ''Tai Man'' \<union> set ''x  /10/15''
   \<and> ''taiman.'' \<in> set (the (generate_chinese ''Chan'' ''Tai Man'' [] [] [] ''x  /10/15'' True))
   \<and> \<not> dot_well_formed ''taiman.''"
  by code_simp

text \<open>
  Claim C10, amended. For every input whose trimmed first and last fields are non-empty and
  whose fields (first, last, middle, alias, alias2, year, dob) contain no dot, and, in full
  mode, whose date suffixes do not consist of whitespace only, every string returned by
  \<open>generate_chinese\<close> and by \<open>generate_western\<close> is dot-well-formed: it does not begin
  with a dot, does not end with a dot and has no two dots in a row.
\<close>

theorem dots_well_formed:
  assumes "strip first' \<noteq> []" and "strip last' \<noteq> []"
    and "CHR ''.'' \<notin> set first' \<union> set last' \<union> set middle \<union> set alias \<union> set alias2
           \<union> set year \<union> set dob"
    and "full \<longrightarrow> (\<forall>dt. parse_dates year dob = Some dt \<longrightarrow>
           (\<forall>d \<in> set (date_list dt). has_nonspace d))"
  shows "(\<exists>r. generate_chinese last' first' alias alias2 year dob full = Some r
            \<and> (\<forall>x \<in> set r. dot_well_formed x))
       \<and> (\<exists>r. generate_western first' last' middle alias alias2 year dob full = Some r
            \<and> (\<forall>x \<in> set r. dot_well_formed x))"
proof
  obtain tk where tk: "chinese_tokens last' first' alias alias2 year dob = Some tk"
    using chinese_tokens_total by blast
  have nodot: "CHR ''.'' \<notin> set last' \<union> set first' \<union> set alias \<union> set alias2 \<union> set year \<union> set dob"
    using assms(3) by blast
  have ok: "cn_dot_ok tk"
    using tk assms(1,2) nodot by (rule chinese_tokens_dot_ok)
  obtain dt where dt: "parse_dates year dob = Some dt"
    using parse_dates_total by blast
  from chinese_tokens_dates [OF dt, of last' first' "alias" alias2] tk
  have "cn_dates tk = date_list dt" by simp
  with assms(4) dt have "full \<longrightarrow> (\<forall>d \<in> set (cn_dates tk). has_nonspace d)"
    by simp
  with ok have "\<forall>x \<in> set (chinese_combos tk full). dot_accept (dot_run DStart x)"
    by (rule chinese_combos_dots)
  then have "\<forall>y \<in> set (trim (chinese_combos tk full) MAX_LEN_CN). dot_well_formed y"
    by (rule trim_dots)
  then show "\<exists>r. generate_chinese last' first' alias alias2 year dob full = Some r
            \<and> (\<forall>x \<in> set r. dot_well_formed x)"
    using generate_chinese_eq [OF tk] by simp
next
  obtain tk where tk: "western_tokens first' last' middle alias alias2 year dob = Some tk"
    using western_tokens_total by blast
  have ok: "en_dot_ok tk"
    using tk assms(1,2,3) by (rule western_tokens_dot_ok)
  obtain dt where dt: "parse_dates year dob = Some dt"
    using parse_dates_total by blast
  from western_tokens_dates [OF dt, of first' last' middle "alias" alias2] tk
  have "en_dates tk = date_list dt" by simp
  with assms(4) dt have "full \<longrightarrow> (\<forall>d \<in> set (en_dates tk). has_nonspace d)"
    by simp
  with ok have "\<forall>x \<in> set (western_combos tk full). dot_accept (dot_run DStart x)"
    by (rule western_combos_dots)
  then have "\<forall>y \<in> set (trim (western_combos tk full) MAX_LEN_EN). dot_well_formed y"
    by (rule trim_dots)
  then show "\<exists>r. generate_western first' last' middle alias alias2 year dob full = Some r
            \<and> (\<forall>x \<in> set r. dot_well_formed x)"
    using generate_western_eq [OF tk] by simp
qed

theorem dots_well_formed_witness:
  "strip ''Tai Man'' \<noteq> [] \<and> strip ''Chan'' \<noteq> []
   \<and> ''tommy.ctm'' \<in> set (the (generate_chinese ''Chan'' ''Tai Man'' ''Tommy'' [] [] ''2001/10/15'' False))
   \<and> dot_well_formed ''tommy.ctm''"
proof -
  have h1: "strip ''Tai Man'' \<noteq> []" and h2: "strip ''Chan'' \<noteq> []"
    by code_simp+
  have h3: "CHR ''.'' \<notin> set ''Tai Man'' \<union> set ''Chan'' \<union> set [] \<union> set ''Tommy'' \<union> set []
           \<union> set [] \<union> set ''2001/10/15''"
    by simp
  have h4: "False \<longrightarrow> (\<forall>dt. parse_dates [] ''2001/10/15'' = Some dt \<longrightarrow>
           (\<forall>d \<in> set (date_list dt). has_nonspace d))"
    by simp
  have m: "''tommy.ctm'' \<in> set (the (generate_chinese ''Chan'' ''Tai Man'' ''Tommy'' [] [] ''2001/10/15'' False))"
    unfolding generate_chinese_scenario by simp
  from dots_well_formed [OF h1 h2 h3 h4] m have "dot_well_formed ''tommy.ctm''"
    by auto
  with h1 h2 m show ?thesis by simp
qed

subsection \<open>No candidate is the bare surname followed by a date\<close>

lemma is_digit_dot [simp]: "\<not> is_digit CHR ''.''"
  by (simp add: is_digit_def)

lemma is_digit_not_space: "is_digit c \<Longrightarrow> \<not> isspace c"
  by (auto simp: is_digit_def isspace_def Let_def)

lemma no_digit_Nil [simp]: "no_digit []"
  by (simp add: no_digit_def)

lemma all_digit_Nil [simp]: "all_digit []"
  by (simp add: all_digit_def)

lemma all_digit_append [simp]: "all_digit (x @ y) \<longleftrightarrow> all_digit x \<and> all_digit y"
  by (auto simp: all_digit_def)

lemma no_digit_append [simp]: "no_digit (x @ y) \<longleftrightarrow> no_digit x \<and> no_digit y"
  by (auto simp: no_digit_def)

lemma no_digit_dot [simp]: "no_digit (CHR ''.'' # x) \<longleftrightarrow> no_digit x"
  by (simp add: no_digit_def)

lemma takeWhile_no_digit: "no_digit t \<Longrightarrow> takeWhile (\<lambda>c. \<not> is_digit c) (t @ r) = t @ takeWhile (\<lambda>c. \<not> is_digit c) r"
  by (simp add: no_digit_def)

lemma dropWhile_no_digit: "no_digit t \<Longrightarrow> dropWhile (\<lambda>c. \<not> is_digit c) (t @ r) = dropWhile (\<lambda>c. \<not> is_digit c) r"
  by (simp add: no_digit_def)

lemma takeWhile_no_digit0: "no_digit t \<Longrightarrow> takeWhile (\<lambda>c. \<not> is_digit c) t = t"
  by (simp add: no_digit_def)

lemma dropWhile_no_digit0: "no_digit t \<Longrightarrow> dropWhile (\<lambda>c. \<not> is_digit c) t = []"
  by (simp add: no_digit_def)

lemma takeWhile_all_digit:
  "all_digit d \<Longrightarrow> d \<noteq> [] \<Longrightarrow> takeWhile (\<lambda>c. \<not> is_digit c) (d @ r) = []"
  by (cases d) (simp_all add: all_digit_def)

lemma dropWhile_all_digit:
  "all_digit d \<Longrightarrow> d \<noteq> [] \<Longrightarrow> dropWhile (\<lambda>c. \<not> is_digit c) (d @ r) = d @ r"
  by (cases d) (simp_all add: all_digit_def)

lemma takeWhile_all_digit0: "all_digit d \<Longrightarrow> takeWhile (\<lambda>c. \<not> is_digit c) d = []"
  by (cases d) (simp_all add: all_digit_def)

lemma dropWhile_all_digit0: "all_digit d \<Longrightarrow> dropWhile (\<lambda>c. \<not> is_digit c) d = d"
  by (cases d) (simp_all add: all_digit_def)

lemma hd_ok_Nil [simp]: "hd_ok []"
  by (simp add: hd_ok_def)

lemma hd_ok_append: "hd_ok x \<Longrightarrow> hd_ok y \<Longrightarrow> hd_ok (x @ y)"
  by (cases x) (simp_all add: hd_ok_def)

lemma hd_ok_dot [simp]: "hd_ok (CHR ''.'' # y)"
  by (simp add: hd_ok_def)

lemma hd_ok_all_digit: "all_digit d \<Longrightarrow> hd_ok d"
  by (cases d) (auto simp: hd_ok_def all_digit_def is_digit_not_space)

lemma dot_not_in_append: "CHR ''.'' \<notin> set s \<Longrightarrow> x @ CHR ''.'' # y \<noteq> s"
  by auto

lemmas stem_simps = stem_ok_def takeWhile_no_digit dropWhile_no_digit takeWhile_no_digit0
  dropWhile_no_digit0 takeWhile_all_digit dropWhile_all_digit takeWhile_all_digit0
  dropWhile_all_digit0 hd_ok_append hd_ok_all_digit dot_not_in_append

lemma cn_tier1_stems:
  assumes "cn_stem_tokens tk" and "\<forall>t \<in> set (cn_stems_default tk). t \<noteq> cn_s tk"
  shows "\<forall>x \<in> set (cn_tier1 tk). stem_ok (cn_s tk) x"
proof -
  have ai: "cn_a tk \<noteq> [] \<longrightarrow> cn_ai tk \<noteq> []"
    using assms(1) by (simp add: cn_stem_tokens_def)
  show ?thesis
  proof (cases "cn_a tk = []")
    case True
    note e_a = this
    from e_a show ?thesis by (simp add: cn_tier1_def)
  next
    case False
    note n_a = this
    from n_a ai assms show ?thesis
      unfolding cn_stem_tokens_def cn_stems_default_def cn_tier1_def Let_def
      by (simp add: stem_simps ball_Un)
  qed
qed

lemma cn_tier2_stems:
  assumes "cn_stem_tokens tk" and "\<forall>t \<in> set (cn_stems_default tk). t \<noteq> cn_s tk"
  shows "\<forall>x \<in> set (cn_tier2 tk). stem_ok (cn_s tk) x"
proof -
  have ai: "cn_a tk \<noteq> [] \<longrightarrow> cn_ai tk \<noteq> []"
    using assms(1) by (simp add: cn_stem_tokens_def)
  show ?thesis
  proof (cases "cn_a tk = []")
    case True
    note e_a = this
    from e_a show ?thesis by (simp add: cn_tier2_def)
  next
    case False
    note n_a = this
    from n_a ai assms show ?thesis
      unfolding cn_stem_tokens_def cn_stems_default_def cn_tier2_def Let_def
      by (simp add: stem_simps ball_Un)
  qed
qed

lemma cn_tier3_stems:
  assumes "cn_stem_tokens tk" and "\<forall>t \<in> set (cn_stems_default tk). t \<noteq> cn_s tk"
  shows "\<forall>x \<in> set (cn_tier3 tk). stem_ok (cn_s tk) x"
proof -
  have ai: "cn_a tk \<noteq> [] \<longrightarrow> cn_ai tk \<noteq> []"
    using assms(1) by (simp add: cn_stem_tokens_def)
  show ?thesis
  proof (cases "cn_a tk = []")
    case True
    note e_a = this
    from e_a show ?thesis by (simp add: cn_tier3_def)
  next
    case False
    note n_a = this
    from n_a ai assms show ?thesis
      unfolding cn_stem_tokens_def cn_stems_default_def cn_tier3_def Let_def
      by (simp add: stem_simps ball_Un)
  qed
qed

lemma cn_tier4_stems:
  assumes "cn_stem_tokens tk" and "\<forall>t \<in> set (cn_stems_default tk). t \<noteq> cn_s tk"
  shows "\<forall>x \<in> set (cn_tier4 tk). stem_ok (cn_s tk) x"
proof -
  have ai: "cn_a tk \<noteq> [] \<longrightarrow> cn_ai tk \<noteq> []"
    using assms(1) by (simp add: cn_stem_tokens_def)
  show ?thesis
  proof (cases "cn_a tk = []")
    case True
    note e_a = this
    from e_a show ?thesis by (simp add: cn_tier4_def)
  next
    case False
    note n_a = this
    from n_a ai assms show ?thesis
      unfolding cn_stem_tokens_def cn_stems_default_def cn_tier4_def Let_def
      by (simp add: stem_simps ball_Un)
  qed
qed

lemma cn_tier5_stems:
  assumes "cn_stem_tokens tk" and "\<forall>t \<in> set (cn_stems_default tk). t \<noteq> cn_s tk"
  shows "\<forall>x \<in> set (cn_tier5 tk). stem_ok (cn_s tk) x"
proof -
  have ai: "cn_a tk \<noteq> [] \<longrightarrow> cn_ai tk \<noteq> []"
    using assms(1) by (simp add: cn_stem_tokens_def)
  show ?thesis
  proof (cases "cn_g2 tk = []")
    case True
    note e_g2 = this
    from e_g2 show ?thesis by (simp add: cn_tier5_def)
  next
    case False
    note n_g2 = this
    from n_g2 ai assms show ?thesis
      unfolding cn_stem_tokens_def cn_stems_default_def cn_tier5_def Let_def
      by (simp add: stem_simps ball_Un)
  qed
qed

lemma cn_tier6_stems:
  assumes "cn_stem_tokens tk" and "\<forall>t \<in> set (cn_stems_default tk). t \<noteq> cn_s tk"
  shows "\<forall>x \<in> set (cn_tier6 tk). stem_ok (cn_s tk) x"
proof -
  have ai: "cn_a tk \<noteq> [] \<longrightarrow> cn_ai tk \<noteq> []"
    using assms(1) by (simp add: cn_stem_tokens_def)
  show ?thesis
  proof (cases "cn_g2 tk = []")
    case True
    note e_g2 = this
    from e_g2 show ?thesis by (simp add: cn_tier6_def)
  next
    case False
    note n_g2 = this
    from n_g2 ai assms show ?thesis
      unfolding cn_stem_tokens_def cn_stems_default_def cn_tier6_def Let_def
      by (simp add: stem_simps ball_Un)
  qed
qed

lemma cn_tier7_stems:
  assumes "cn_stem_tokens tk" and "\<forall>t \<in> set (cn_stems_default tk). t \<noteq> cn_s tk"
  shows "\<forall>x \<in> set (cn_tier7 tk). stem_ok (cn_s tk) x"
  using assms unfolding cn_stem_tokens_def cn_stems_default_def cn_tier7_def Let_def
  by (simp add: stem_simps ball_Un)

lemma cn_tier8_stems:
  assumes "cn_stem_tokens tk" and "\<forall>t \<in> set (cn_stems_default tk). t \<noteq> cn_s tk"
  shows "\<forall>x \<in> set (cn_tier8 tk). stem_ok (cn_s tk) x"
  using assms unfolding cn_stem_tokens_def cn_stems_default_def cn_tier8_def Let_def
  by (simp add: stem_simps ball_Un)

lemma cn_tier9_stems:
  assumes "cn_stem_tokens tk" and "\<forall>t \<in> set (cn_stems_default tk). t \<noteq> cn_s tk"
  shows "\<forall>x \<in> set (cn_tier9 tk). stem_ok (cn_s tk) x"
  using assms unfolding cn_stem_tokens_def cn_stems_default_def cn_tier9_def Let_def
  by (simp add: stem_simps ball_Un)

lemma cn_tier10_stems:
  assumes "cn_stem_tokens tk" and "\<forall>t \<in> set (cn_stems_default tk). t \<noteq> cn_s tk"
  shows "\<forall>x \<in> set (cn_tier10 tk). stem_ok (cn_s tk) x"
  using assms unfolding cn_stem_tokens_def cn_stems_default_def cn_tier10_def Let_def
  by (simp add: stem_simps ball_Un)

lemma cn_alias2_stems:
  assumes "cn_stem_tokens tk" and "\<forall>t \<in> set (cn_stems_default tk). t \<noteq> cn_s tk"
  shows "\<forall>x \<in> set (cn_alias2 tk). stem_ok (cn_s tk) x"
proof -
  have ai: "cn_a tk \<noteq> [] \<longrightarrow> cn_ai tk \<noteq> []"
    using assms(1) by (simp add: cn_stem_tokens_def)
  show ?thesis
  proof (cases "cn_a2 tk = []")
    case True
    note e_a2 = this
    from e_a2 show ?thesis by (simp add: cn_alias2_def)
  next
    case False
    note n_a2 = this
    show ?thesis
    proof (cases "cn_a tk = []")
      case True
      note e_a = this
      from n_a2 e_a ai assms show ?thesis
        unfolding cn_stem_tokens_def cn_stems_default_def cn_alias2_def Let_def
        by (simp add: stem_simps ball_Un)
    next
      case False
      note n_a = this
      from n_a2 n_a ai assms show ?thesis
        unfolding cn_stem_tokens_def cn_stems_default_def cn_alias2_def Let_def
        by (simp add: stem_simps ball_Un)
    qed
  qed
qed

lemma cn_full_alias_stems:
  assumes "cn_stem_tokens tk" and "\<forall>t \<in> set (cn_stems_default tk). t \<noteq> cn_s tk" and "\<forall>t \<in> set (cn_stems_full tk). t \<noteq> cn_s tk"
  shows "\<forall>x \<in> set (cn_full_alias tk). stem_ok (cn_s tk) x"
proof -
  have ai: "cn_a tk \<noteq> [] \<longrightarrow> cn_ai tk \<noteq> []"
    using assms(1) by (simp add: cn_stem_tokens_def)
  show ?thesis
  proof (cases "cn_a tk = []")
    case True
    note e_a = this
    from e_a show ?thesis by (simp add: cn_full_alias_def)
  next
    case False
    note n_a = this
    from n_a ai assms show ?thesis
      unfolding cn_stem_tokens_def cn_stems_default_def cn_stems_full_def cn_full_alias_def Let_def
      by (simp add: stem_simps ball_Un)
  qed
qed

lemma cn_full_given_stems:
  assumes "cn_stem_tokens tk" and "\<forall>t \<in> set (cn_stems_default tk). t \<noteq> cn_s tk" and "\<forall>t \<in> set (cn_stems_full tk). t \<noteq> cn_s tk"
  shows "\<forall>x \<in> set (cn_full_given tk). stem_ok (cn_s tk) x"
  using assms unfolding cn_stem_tokens_def cn_stems_default_def cn_stems_full_def cn_full_given_def Let_def
  by (simp add: stem_simps ball_Un)

lemma cn_full_surname_stems:
  assumes "cn_stem_tokens tk" and "\<forall>t \<in> set (cn_stems_default tk). t \<noteq> cn_s tk" and "\<forall>t \<in> set (cn_stems_full tk). t \<noteq> cn_s tk"
  shows "\<forall>x \<in> set (cn_full_surname tk). stem_ok (cn_s tk) x"
  using assms unfolding cn_stem_tokens_def cn_stems_default_def cn_stems_full_def cn_full_surname_def Let_def
  by (simp add: stem_simps ball_Un)

lemma cn_full_g2_stems:
  assumes "cn_stem_tokens tk" and "\<forall>t \<in> set (cn_stems_default tk). t \<noteq> cn_s tk" and "\<forall>t \<in> set (cn_stems_full tk). t \<noteq> cn_s tk"
  shows "\<forall>x \<in> set (cn_full_g2 tk). stem_ok (cn_s tk) x"
proof -
  have ai: "cn_a tk \<noteq> [] \<longrightarrow> cn_ai tk \<noteq> []"
    using assms(1) by (simp add: cn_stem_tokens_def)
  show ?thesis
  proof (cases "cn_g2 tk = []")
    case True
    note e_g2 = this
    from e_g2 show ?thesis by (simp add: cn_full_g2_def)
  next
    case False
    note n_g2 = this
    show ?thesis
    proof (cases "cn_a tk = []")
      case True
      note e_a = this
      from n_g2 e_a ai assms show ?thesis
        unfolding cn_stem_tokens_def cn_stems_default_def cn_stems_full_def cn_full_g2_def Let_def
        by (simp add: stem_simps ball_Un)
    next
      case False
      note n_a = this
      from n_g2 n_a ai assms show ?thesis
        unfolding cn_stem_tokens_def cn_stems_default_def cn_stems_full_def cn_full_g2_def Let_def
        by (simp add: stem_simps ball_Un)
    qed
  qed
qed

lemma cn_full_alias2_stems:
  assumes "cn_stem_tokens tk" and "\<forall>t \<in> set (cn_stems_default tk). t \<noteq> cn_s tk" and "\<forall>t \<in> set (cn_stems_full tk). t \<noteq> cn_s tk"
  shows "\<forall>x \<in> set (cn_full_alias2 tk). stem_ok (cn_s tk) x"
proof -
  have ai: "cn_a tk \<noteq> [] \<longrightarrow> cn_ai tk \<noteq> []"
    using assms(1) by (simp add: cn_stem_tokens_def)
  show ?thesis
  proof (cases "cn_a2 tk = []")
    case True
    note e_a2 = this
    from e_a2 show ?thesis by (simp add: cn_full_alias2_def)
  next
    case False
    note n_a2 = this
    from n_a2 ai assms show ?thesis
      unfolding cn_stem_tokens_def cn_stems_default_def cn_stems_full_def cn_full_alias2_def Let_def
      by (simp add: stem_simps ball_Un)
  qed
qed

lemma chinese_combos_stems:
  assumes "cn_stem_tokens tk" and "\<forall>t \<in> set (cn_stems_default tk). t \<noteq> cn_s tk"
    and "full \<longrightarrow> (\<forall>t \<in> set (cn_stems_full tk). t \<noteq> cn_s tk)"
  shows "\<forall>x \<in> set (chinese_combos tk full). stem_ok (cn_s tk) x"
proof -
  have d: "\<forall>x \<in> set (chinese_default tk). stem_ok (cn_s tk) x"
    using cn_tier1_stems [OF assms(1,2)] cn_tier2_stems [OF assms(1,2)]
      cn_tier3_stems [OF assms(1,2)] cn_tier4_stems [OF assms(1,2)]
      cn_tier5_stems [OF assms(1,2)] cn_tier6_stems [OF assms(1,2)]
      cn_tier7_stems [OF assms(1,2)] cn_tier8_stems [OF assms(1,2)]
      cn_tier9_stems [OF assms(1,2)] cn_tier10_stems [OF assms(1,2)]
      cn_alias2_stems [OF assms(1,2)]
    unfolding chinese_default_def by (simp add: ball_Un)
  show ?thesis
  proof (cases full)
    case False
    with d show ?thesis by (simp add: chinese_combos_def)
  next
    case True
    with assms(3) have f: "\<forall>t \<in> set (cn_stems_full tk). t \<noteq> cn_s tk" by simp
    have "\<forall>x \<in> set (chinese_full tk). stem_ok (cn_s tk) x"
      using cn_full_alias_stems [OF assms(1,2) f] cn_full_given_stems [OF assms(1,2) f]
        cn_full_surname_stems [OF assms(1,2) f] cn_full_g2_stems [OF assms(1,2) f]
        cn_full_alias2_stems [OF assms(1,2) f]
      unfolding chinese_full_def by (simp add: ball_Un)
    with d True show ?thesis by (simp add: chinese_combos_def ball_Un)
  qed
qed

lemma strip_id:
  assumes "x \<noteq> []" and "\<not> isspace (hd x)" and "\<not> isspace (last x)"
  shows "strip x = x"
proof -
  have "dropWhile isspace x = x"
    using assms(1,2) by (cases x) simp_all
  then show ?thesis
    using assms(1,3) by (simp add: strip_eq_rstrip rstrip_id)
qed

lemma no_digit_strip: "no_digit x \<Longrightarrow> no_digit (strip x)"
  using set_strip [of x] by (auto simp: no_digit_def)

lemma no_digit_iff_dropWhile:
  "no_digit x \<longleftrightarrow> dropWhile (\<lambda>c. \<not> is_digit c) x = []"
  by (simp add: no_digit_def)

lemma last_dropWhile:
  "dropWhile P x \<noteq> [] \<Longrightarrow> last x = last (dropWhile P x)"
proof -
  assume ne: "dropWhile P x \<noteq> []"
  have "x = takeWhile P x @ dropWhile P x" by simp
  then have "last x = last (takeWhile P x @ dropWhile P x)" by simp
  also have "\<dots> = last (dropWhile P x)" using ne by (rule last_appendR)
  finally show ?thesis .
qed

lemma stem_ok_strip:
  assumes ok: "stem_ok s x" and s: "no_digit s" and d: "all_digit d" "d \<noteq> []"
  shows "strip x \<noteq> s @ d"
proof (cases "no_digit x")
  case True
  then have n: "no_digit (strip x)" by (rule no_digit_strip)
  have "hd d \<in> set d" using d(2) by (rule hd_in_set)
  moreover from d(1) this have "is_digit (hd d)"
    unfolding all_digit_def by (rule bspec)
  ultimately have "\<not> no_digit (s @ d)"
    unfolding no_digit_def by auto
  with n show ?thesis by (rule_tac notI) simp
next
  case False
  let ?D = "dropWhile (\<lambda>c. \<not> is_digit c) x"
  let ?N = "takeWhile (\<lambda>c. \<not> is_digit c) x"
  from False ok have stem: "?N \<noteq> s" and digits: "all_digit ?D" and hd: "hd_ok x"
    unfolding stem_ok_def by blast+
  from False have ne: "?D \<noteq> []"
    unfolding no_digit_iff_dropWhile .
  then have x_ne: "x \<noteq> []" by (rule_tac notI) simp
  have l: "last x = last ?D"
    using ne by (rule last_dropWhile)
  have "last ?D \<in> set ?D" using ne by (rule last_in_set)
  with digits have "is_digit (last ?D)"
    unfolding all_digit_def by (rule bspec)
  then have "\<not> isspace (last ?D)" by (rule is_digit_not_space)
  then have e: "\<not> isspace (last x)" unfolding l .
  have b: "\<not> isspace (hd x)"
    using hd x_ne unfolding hd_ok_def by blast
  have id: "strip x = x"
    using x_ne b e by (rule strip_id)
  have t: "takeWhile (\<lambda>c. \<not> is_digit c) (s @ d) = s"
    using s d(1) by (simp add: takeWhile_no_digit takeWhile_all_digit0)
  show ?thesis
  proof
    assume "strip x = s @ d"
    then have "x = s @ d" unfolding id .
    then have "?N = s" using t by (simp only:)
    with stem show False by (rule notE)
  qed
qed

lemma is_digit_lower_char [simp]: "is_digit (lower_char c) = is_digit c"
  unfolding is_digit_def lower_char_def Let_def by (auto simp: of_char_of)

lemma no_digit_low [simp]: "no_digit (low t) = no_digit t"
  by (simp add: no_digit_def low_def)

lemma no_digit_take: "no_digit t \<Longrightarrow> no_digit (take n t)"
  unfolding no_digit_def using set_take_subset [of n t] by blast

lemma no_digit_word: "w \<in> set (split_ws t) \<Longrightarrow> no_digit t \<Longrightarrow> no_digit w"
  using split_ws_words [of w t] unfolding no_digit_def by blast

lemma hd_ok_low [simp]: "hd_ok (low t) = hd_ok t"
  by (cases t) (simp_all add: hd_ok_def low_def)

lemma hd_ok_strip [simp]: "hd_ok (strip x)"
  using strip_ends [of x] unfolding hd_ok_def by blast

lemma hd_ok_take: "hd_ok t \<Longrightarrow> hd_ok (take n t)"
  by (cases t; cases n) (simp_all add: hd_ok_def)

lemma hd_ok_word: "w \<in> set (split_ws t) \<Longrightarrow> hd_ok w"
proof -
  assume "w \<in> set (split_ws t)"
  then have "w \<noteq> []" and "\<forall>c \<in> set w. \<not> isspace c"
    using split_ws_words [of w t] by blast+
  then show ?thesis
    unfolding hd_ok_def by (cases w) simp_all
qed

lemma chinese_tokens_stem_tokens:
  assumes tk: "chinese_tokens l f a a2 year dob = Some tk"
    and nd: "no_digit l" "no_digit f" "no_digit a" "no_digit a2"
    and dot: "CHR ''.'' \<notin> set l"
    and ne: "strip f \<noteq> []"
    and dates: "\<forall>d \<in> set (cn_dates tk). all_digit d"
  shows "cn_stem_tokens tk"
proof -
  from tk obtain g1 g2 dt where
    g1: "g1 = [] \<or> g1 \<in> set (split_ws (low (strip f)))" and
    g2: "g2 = [] \<or> g2 \<in> set (split_ws (low (strip f)))" and
    g1ne: "split_ws (low (strip f)) \<noteq> [] \<longrightarrow> g1 \<noteq> []" and
    dt: "parse_dates year dob = Some dt" and
    tk_eq: "tk = \<lparr>cn_s = low (strip l), cn_a = low (strip a), cn_a2 = low (strip a2),
             cn_g = g1 @ g2, cn_g2 = g2, cn_si = low (take 1 (low (strip l))),
             cn_gi = low (take 1 g1) @ low (take 1 g2),
             cn_ai = low (take 1 (low (strip a))),
             cn_init_sg = low (take 1 (low (strip l))) @ low (take 1 g1) @ low (take 1 g2),
             cn_init_as = low (take 1 (low (strip a))) @
               (if a = [] \<or> strip a = [] then [] else low (take 1 (low (strip l)))),
             cn_init_asg = low (take 1 (low (strip a))) @
               (if a = [] \<or> strip a = [] then []
                else low (take 1 (low (strip l))) @ low (take 1 g1) @ low (take 1 g2)),
             cn_yr2 = fst (snd dt), cn_dy2 = fst (snd (snd dt)), cn_dates = date_list dt\<rparr>"
    by (rule chinese_tokens_fieldsE)
  obtain yr4 yr2 dy2 md where dt_eq: "dt = (yr4, yr2, dy2, md)"
    by (cases dt) auto
  have dl: "cn_dates tk = date_list (yr4, yr2, dy2, md)" "cn_yr2 tk = yr2" "cn_dy2 tk = dy2"
    unfolding tk_eq dt_eq by simp_all
  have n_s: "no_digit (low (strip l))" and n_a: "no_digit (low (strip a))"
    and n_a2: "no_digit (low (strip a2))" and n_f: "no_digit (low (strip f))"
    using nd by (simp_all add: no_digit_strip)
  have n_g1: "no_digit g1"
    using g1 no_digit_word [OF _ n_f, of g1] by (cases "g1 = []") simp_all
  have n_g2: "no_digit g2"
    using g2 no_digit_word [OF _ n_f, of g2] by (cases "g2 = []") simp_all
  have h_g1: "hd_ok g1"
    using g1 hd_ok_word [of g1 "low (strip f)"] by (cases "g1 = []") simp_all
  have h_g2: "hd_ok g2"
    using g2 hd_ok_word [of g2 "low (strip f)"] by (cases "g2 = []") simp_all
  have "split_ws (low (strip f)) \<noteq> []"
    using ne by (intro split_ws_not_Nil has_nonspace_low_strip)
  with g1ne have g1_ne: "g1 \<noteq> []" by simp
  have sdot: "CHR ''.'' \<notin> set (low (strip l))"
    using dot set_strip [of l] by auto
  have d1: "\<forall>d \<in> set (date_list (yr4, yr2, dy2, md)). all_digit d \<and> d \<noteq> []"
    using dates unfolding dl(1) by (auto simp: date_list_mem simp del: date_list.simps)
  have d2: "yr2 \<noteq> [] \<longrightarrow> all_digit yr2"
    using dates unfolding dl(1) by (auto simp: date_list_mem simp del: date_list.simps)
  have d3: "dy2 \<noteq> [] \<longrightarrow> all_digit dy2"
    using dates unfolding dl(1) by (auto simp: date_list_mem simp del: date_list.simps)
  show ?thesis
    unfolding cn_stem_tokens_def tk_eq dt_eq cn_tokens.simps fst_conv snd_conv
    using n_s n_a n_a2 n_g1 n_g2 h_g1 h_g2 g1_ne sdot d1 d2 d3
    by (simp add: no_digit_take hd_ok_take hd_ok_append del: date_list.simps)
qed

text \<open>
  Tier 9 appends a date to \<open>init_sg\<close>, the initials of surname and given name. For the
  surname Ng and the given name Gigi these initials are the surname itself, so the
  candidate \<open>init_sg + yr4\<close> is the surname followed by the year, although alias, alias2,
  given name and second given word all differ from the surname.
\<close>

theorem bare_surname_date_counterexample:
  "cn_s (the (chinese_tokens ''Ng'' ''Gigi'' [] [] ''2001'' [])) = ''ng''
   \<and> cn_a (the (chinese_tokens ''Ng'' ''Gigi'' [] [] ''2001'' [])) \<noteq> ''ng''
   \<and> cn_a2 (the (chinese_tokens ''Ng'' ''Gigi'' [] [] ''2001'' [])) \<noteq> ''ng''
   \<and> cn_g (the (chinese_tokens ''Ng'' ''Gigi'' [] [] ''2001'' [])) \<noteq> ''ng''
   \<and> cn_g2 (the (chinese_tokens ''Ng'' ''Gigi'' [] [] ''2001'' [])) \<noteq> ''ng''
   \<and> ''2001'' \<in> set (cn_dates (the (chinese_tokens ''Ng'' ''Gigi'' [] [] ''2001'' [])))
   \<and> ''ng'' @ ''2001'' \<in> set (the (generate_chinese ''Ng'' ''Gigi'' [] [] ''2001'' [] False))"
  by code_simp

text \<open>
  With an empty given name the initials \<open>gi\<close> are empty and the tier 9 candidate
  \<open>s + gi + d\<close> is the surname followed by the date.
\<close>

lemma bare_surname_date_empty_given_example:
  "cn_s (the (chinese_tokens ''Chan'' [] [] [] ''2001'' [])) = ''chan''
   \<and> cn_g (the (chinese_tokens ''Chan'' [] [] [] ''2001'' [])) = []
   \<and> ''2001'' \<in> set (cn_dates (the (chinese_tokens ''Chan'' [] [] [] ''2001'' [])))
   \<and> ''chan'' @ ''2001'' \<in> set (the (generate_chinese ''Chan'' [] [] [] ''2001'' [] False))"
  by code_simp

text \<open>
  Claim C9, amended. Let the surname, given name, alias and alias2 contain no digit, the
  surname no dot, the given name at least one word, and let every derived date token
  consist of digits. If the lowercased trimmed surname differs from every stem that a tier
  puts in front of a date (alias, alias2, full given name, second given word, as the claim
  says, and also \<open>init_sg\<close> and the concatenations listed in \<open>cn_stems_default\<close>, in full
  mode those of \<open>cn_stems_full\<close> as well), then the sequence returned by
  \<open>generate_chinese\<close>, in default and in full mode, contains no string equal to the
  surname followed directly by one of the date tokens.
\<close>

theorem no_bare_surname_date:
  assumes tk: "chinese_tokens last' first' alias alias2 year dob = Some tk"
    and nd: "no_digit last'" "no_digit first'" "no_digit alias" "no_digit alias2"
    and dot: "CHR ''.'' \<notin> set last'"
    and ne: "strip first' \<noteq> []"
    and dates: "\<forall>d \<in> set (cn_dates tk). all_digit d"
    and stems: "\<forall>t \<in> set (cn_stems_default tk). t \<noteq> cn_s tk"
    and stems_full: "full \<longrightarrow> (\<forall>t \<in> set (cn_stems_full tk). t \<noteq> cn_s tk)"
  shows "\<exists>r. generate_chinese last' first' alias alias2 year dob full = Some r
           \<and> (\<forall>d \<in> set (cn_dates tk). cn_s tk @ d \<notin> set r)"
proof -
  have ok: "cn_stem_tokens tk"
    using tk nd dot ne dates by (rule chinese_tokens_stem_tokens)
  then have s: "no_digit (cn_s tk)" and dne: "\<forall>d \<in> set (cn_dates tk). d \<noteq> []"
    unfolding cn_stem_tokens_def by blast+
  have combos: "\<forall>x \<in> set (chinese_combos tk full). stem_ok (cn_s tk) x"
    using ok stems stems_full by (rule chinese_combos_stems)
  have "\<forall>d \<in> set (cn_dates tk). cn_s tk @ d \<notin> set (trim (chinese_combos tk full) MAX_LEN_CN)"
  proof (intro ballI notI)
    fix d
    assume d: "d \<in> set (cn_dates tk)"
      and "cn_s tk @ d \<in> set (trim (chinese_combos tk full) MAX_LEN_CN)"
    then obtain x where x: "x \<in> set (chinese_combos tk full)" and e: "strip x = cn_s tk @ d"
      unfolding set_trim by auto
    from combos x have "stem_ok (cn_s tk) x" by (rule bspec)
    moreover from dates d have "all_digit d" by (rule bspec)
    moreover from dne d have "d \<noteq> []" by (rule bspec)
    ultimately have "strip x \<noteq> cn_s tk @ d"
      using s by (intro stem_ok_strip)
    with e show False by simp
  qed
  then show ?thesis
    using generate_chinese_eq [OF tk] by simp
qed

theorem no_bare_surname_date_witness:
  "chinese_tokens ''Chan'' ''Tai Man'' ''Tommy'' [] [] ''2001/10/15'' =
     Some \<lparr>cn_s = ''chan'', cn_a = ''tommy'', cn_a2 = [], cn_g = ''taiman'', cn_g2 = ''man'',
           cn_si = ''c'', cn_gi = ''tm'', cn_ai = ''t'', cn_init_sg = ''ctm'',
           cn_init_as = ''tc'', cn_init_asg = ''tctm'', cn_yr2 = ''01'', cn_dy2 = ''15'',
           cn_dates = [''2001'', ''01'', ''1015'', ''15'']\<rparr>
   \<and> ''chan2001'' \<notin> set (the (generate_chinese ''Chan'' ''Tai Man'' ''Tommy'' [] []
         ''2001/10/15'' True))"
proof -
  let ?tk = "\<lparr>cn_s = ''chan'', cn_a = ''tommy'', cn_a2 = [], cn_g = ''taiman'', cn_g2 = ''man'',
           cn_si = ''c'', cn_gi = ''tm'', cn_ai = ''t'', cn_init_sg = ''ctm'',
           cn_init_as = ''tc'', cn_init_asg = ''tctm'', cn_yr2 = ''01'', cn_dy2 = ''15'',
           cn_dates = [''2001'', ''01'', ''1015'', ''15'']\<rparr>"
  have tk: "chinese_tokens ''Chan'' ''Tai Man'' ''Tommy'' [] [] ''2001/10/15'' = Some ?tk"
    by code_simp
  have nd: "no_digit ''Chan''" "no_digit ''Tai Man''" "no_digit ''Tommy''" "no_digit []"
    by code_simp+
  have dot: "CHR ''.'' \<notin> set ''Chan''" by simp
  have ne: "strip ''Tai Man'' \<noteq> []" by code_simp
  have dates: "\<forall>d \<in> set (cn_dates ?tk). all_digit d" by code_simp
  have stems: "\<forall>t \<in> set (cn_stems_default ?tk). t \<noteq> cn_s ?tk" by code_simp
  have stems_full: "True \<longrightarrow> (\<forall>t \<in> set (cn_stems_full ?tk). t \<noteq> cn_s ?tk)" by code_simp
  from no_bare_surname_date [OF tk nd dot ne dates stems stems_full]
  have "''chan'' @ ''2001'' \<notin> set (the (generate_chinese ''Chan'' ''Tai Man'' ''Tommy'' [] []
         ''2001/10/15'' True))"
    by auto
  with tk show ?thesis by simp
qed

subsection \<open>Every candidate is name tokens followed by date material\<close>

lemma built_sfx: "d \<in> set sfx \<Longrightarrow> built names sfx d"
  by (subst built.simps) simp

lemma built_app: "t \<in> set names \<Longrightarrow> built names sfx r \<Longrightarrow> built names sfx (t @ r)"
proof (cases "t = []")
  case True
  assume "built names sfx r"
  then show ?thesis using True by simp
next
  case False
  assume t: "t \<in> set names" and r: "built names sfx r"
  have "if t \<noteq> [] \<and> prefix t (t @ r) then built names sfx (drop (length t) (t @ r)) else False"
    using False r by simp
  then show ?thesis
    using t by (subst built.simps) blast
qed

lemma built_dot:
  "''.'' \<in> set names \<Longrightarrow> built names sfx r \<Longrightarrow> built names sfx (CHR ''.'' # r)"
  using built_app [of "''.''" names sfx r] by simp

lemma built_tok: "t \<in> set names \<Longrightarrow> [] \<in> set sfx \<Longrightarrow> built names sfx t"
  using built_app [of t names sfx "[]"] built_sfx [of "[]" sfx names] by simp

lemmas built_simps = built_sfx built_app built_dot built_tok cn_names_def cn_date_material_def
  en_names_def en_date_material_def Let_def ball_Un

lemma cn_tier1_built: "\<forall>x\<in>set (cn_tier1 tk). built (cn_names tk) (cn_date_material tk) x"
  by (auto simp: cn_tier1_def built_simps)

lemma cn_tier2_built: "\<forall>x\<in>set (cn_tier2 tk). built (cn_names tk) (cn_date_material tk) x"
  by (auto simp: cn_tier2_def built_simps)

lemma cn_tier3_built: "\<forall>x\<in>set (cn_tier3 tk). built (cn_names tk) (cn_date_material tk) x"
  by (auto simp: cn_tier3_def built_simps)

lemma cn_tier4_built: "\<forall>x\<in>set (cn_tier4 tk). built (cn_names tk) (cn_date_material tk) x"
  by (auto simp: cn_tier4_def built_simps)

lemma cn_tier5_built: "\<forall>x\<in>set (cn_tier5 tk). built (cn_names tk) (cn_date_material tk) x"
  by (auto simp: cn_tier5_def built_simps)

lemma cn_tier6_built: "\<forall>x\<in>set (cn_tier6 tk). built (cn_names tk) (cn_date_material tk) x"
  by (auto simp: cn_tier6_def built_simps)

lemma cn_tier7_built: "\<forall>x\<in>set (cn_tier7 tk). built (cn_names tk) (cn_date_material tk) x"
  by (auto simp: cn_tier7_def built_simps)

lemma cn_tier8_built: "\<forall>x\<in>set (cn_tier8 tk). built (cn_names tk) (cn_date_material tk) x"
  by (auto simp: cn_tier8_def built_simps)

lemma cn_tier9_built: "\<forall>x\<in>set (cn_tier9 tk). built (cn_names tk) (cn_date_material tk) x"
  by (auto simp: cn_tier9_def built_simps)

lemma cn_tier10_built: "\<forall>x\<in>set (cn_tier10 tk). built (cn_names tk) (cn_date_material tk) x"
  by (auto simp: cn_tier10_def built_simps)

lemma cn_alias2_built: "\<forall>x\<in>set (cn_alias2 tk). built (cn_names tk) (cn_date_material tk) x"
  by (auto simp: cn_alias2_def built_simps)

lemma cn_full_alias_built: "\<forall>x\<in>set (cn_full_alias tk). built (cn_names tk) (cn_date_material tk) x"
  by (auto simp: cn_full_alias_def built_simps)

lemma cn_full_given_built: "\<forall>x\<in>set (cn_full_given tk). built (cn_names tk) (cn_date_material tk) x"
  by (auto simp: cn_full_given_def built_simps)

lemma cn_full_surname_built: "\<forall>x\<in>set (cn_full_surname tk). built (cn_names tk) (cn_date_material tk) x"
  by (auto simp: cn_full_surname_def built_simps)

lemma cn_full_g2_built: "\<forall>x\<in>set (cn_full_g2 tk). built (cn_names tk) (cn_date_material tk) x"
  by (auto simp: cn_full_g2_def built_simps)

lemma cn_full_alias2_built: "\<forall>x\<in>set (cn_full_alias2 tk). built (cn_names tk) (cn_date_material tk) x"
  by (auto simp: cn_full_alias2_def built_simps)

lemma chinese_combos_built:
  "\<forall>x\<in>set (chinese_combos tk full). built (cn_names tk) (cn_date_material tk) x"
  using cn_tier1_built [of tk] cn_tier2_built [of tk] cn_tier3_built [of tk] cn_tier4_built [of tk] cn_tier5_built [of tk] cn_tier6_built [of tk] cn_tier7_built [of tk] cn_tier8_built [of tk] cn_tier9_built [of tk] cn_tier10_built [of tk] cn_alias2_built [of tk] cn_full_alias_built [of tk] cn_full_given_built [of tk] cn_full_surname_built [of tk] cn_full_g2_built [of tk] cn_full_alias2_built [of tk]
  by (auto simp: chinese_combos_def chinese_default_def chinese_full_def)

lemma en_plain_built: "\<forall>x\<in>set (en_plain tk). built (en_names tk) (en_date_material tk) x"
  by (auto simp: en_plain_def built_simps)

lemma en_short_built: "\<forall>x\<in>set (en_short tk). built (en_names tk) (en_date_material tk) x"
  by (auto simp: en_short_def built_simps)

lemma en_alias_built: "\<forall>x\<in>set (en_alias tk). built (en_names tk) (en_date_material tk) x"
  by (auto simp: en_alias_def built_simps)

lemma en_alias_date_built: "\<forall>x\<in>set (en_alias_date tk). built (en_names tk) (en_date_material tk) x"
  by (auto simp: en_alias_date_def built_simps)

lemma en_initials_built: "\<forall>x\<in>set (en_initials tk). built (en_names tk) (en_date_material tk) x"
  by (auto simp: en_initials_def built_simps)

lemma en_alias_initials_built: "\<forall>x\<in>set (en_alias_initials tk). built (en_names tk) (en_date_material tk) x"
  by (auto simp: en_alias_initials_def built_simps)

lemma en_alias_last_date_built: "\<forall>x\<in>set (en_alias_last_date tk). built (en_names tk) (en_date_material tk) x"
  by (auto simp: en_alias_last_date_def built_simps)

lemma en_date_name_built: "\<forall>x\<in>set (en_date_name tk). built (en_names tk) (en_date_material tk) x"
  by (auto simp: en_date_name_def built_simps)

lemma en_separator_built: "\<forall>x\<in>set (en_separator tk). built (en_names tk) (en_date_material tk) x"
  by (auto simp: en_separator_def built_simps)

lemma en_first_alias_built: "\<forall>x\<in>set (en_first_alias tk). built (en_names tk) (en_date_material tk) x"
  by (auto simp: en_first_alias_def built_simps)

lemma en_alias2_built: "\<forall>x\<in>set (en_alias2 tk). built (en_names tk) (en_date_material tk) x"
  by (auto simp: en_alias2_def built_simps)

lemma en_full_cores_built: "\<forall>x\<in>set (en_full_cores tk). built (en_names tk) (en_date_material tk) x"
  by (auto simp: en_full_cores_def built_simps)

lemma en_full_alias2_built: "\<forall>x\<in>set (en_full_alias2 tk). built (en_names tk) (en_date_material tk) x"
  using en_alias2_built [of tk] by (auto simp: en_full_alias2_def built_simps)

lemma en_full_rest_built: "\<forall>x\<in>set (en_full_rest tk). built (en_names tk) (en_date_material tk) x"
  by (auto simp: en_full_rest_def built_simps)

lemma western_combos_built:
  "\<forall>x\<in>set (western_combos tk full). built (en_names tk) (en_date_material tk) x"
  using en_plain_built [of tk] en_short_built [of tk] en_alias_built [of tk] en_alias_date_built [of tk] en_initials_built [of tk] en_alias_initials_built [of tk] en_alias_last_date_built [of tk] en_date_name_built [of tk] en_separator_built [of tk] en_first_alias_built [of tk] en_alias2_built [of tk] en_full_cores_built [of tk] en_full_alias2_built [of tk] en_full_rest_built [of tk]
  by (auto simp: western_combos_def western_default_def western_full_def)

lemma trim_from_combos:
  "c \<in> set (trim lst maxlen) \<Longrightarrow> \<exists>x\<in>set lst. c = strip x"
  by (auto simp: set_trim)

lemma chinese_tokens_date_fields:
  "parse_dates year dob = Some (yr4, yr2, dy2, md) \<Longrightarrow>
   \<exists>tk. chinese_tokens l f a a2 year dob = Some tk
        \<and> cn_dates tk = date_list (yr4, yr2, dy2, md) \<and> cn_yr2 tk = yr2 \<and> cn_dy2 tk = dy2"
  by (simp add: chinese_tokens_def ini_eq subscript_def Let_def)

lemma western_tokens_date_fields:
  "parse_dates year dob = Some (yr4, yr2, dy2, md) \<Longrightarrow>
   \<exists>tk. western_tokens f l m a a2 year dob = Some tk
        \<and> en_dates tk = date_list (yr4, yr2, dy2, md) \<and> en_yr2 tk = yr2 \<and> en_dy2 tk = dy2
        \<and> en_md tk = md"
  by (simp add: western_tokens_def ini_eq Let_def)

lemma chinese_tokens_names_ex:
  "\<exists>tk tk2. chinese_tokens l f a a2 year dob = Some tk
     \<and> chinese_tokens l f a a2 year' dob' = Some tk2 \<and> cn_names tk2 = cn_names tk"
proof -
  obtain dt where dt: "parse_dates year dob = Some dt"
    using parse_dates_total by blast
  obtain dt' where dt': "parse_dates year' dob' = Some dt'"
    using parse_dates_total by blast
  show ?thesis
    using dt dt'
    by (simp add: chinese_tokens_def ini_eq subscript_def Let_def cn_names_def)
qed

lemma chinese_tokens_names:
  assumes "chinese_tokens l f a a2 year dob = Some tk"
    and "chinese_tokens l f a a2 year' dob' = Some tk2"
  shows "cn_names tk2 = cn_names tk"
  using assms chinese_tokens_names_ex [of l f a a2 year dob year' dob'] by auto

lemma western_tokens_names_ex:
  "\<exists>tk tk2. western_tokens f l m a a2 year dob = Some tk
     \<and> western_tokens f l m a a2 year' dob' = Some tk2 \<and> en_names tk2 = en_names tk"
proof -
  obtain dt where dt: "parse_dates year dob = Some dt"
    using parse_dates_total by blast
  obtain dt' where dt': "parse_dates year' dob' = Some dt'"
    using parse_dates_total by blast
  show ?thesis
    using dt dt'
    by (simp add: western_tokens_def ini_eq Let_def en_names_def)
qed

lemma western_tokens_names:
  assumes "western_tokens f l m a a2 year dob = Some tk"
    and "western_tokens f l m a a2 year' dob' = Some tk2"
  shows "en_names tk2 = en_names tk"
  using assms western_tokens_names_ex [of f l m a a2 year dob year' dob'] by auto

subsection \<open>No date suffix is derived from the month alone\<close>

text \<open>
  For the dob 2001/10/10 the day component \<open>dy2\<close> is the string 10, which is also the
  zero-padded month: a returned component equals the padded month, and the candidate
  tommy10 is returned.
\<close>

theorem month_token_counterexample:
  "parse_dates [] ''2001/10/10'' = Some (''2001'', ''01'', ''10'', ''1010'')
   \<and> dob_parts ''2001/10/10'' = [''2001'', ''10'', ''10'']
   \<and> zfill 2 ''10'' = ''10''
   \<and> ''10'' \<in> set (date_list (''2001'', ''01'', ''10'', ''1010''))
   \<and> ''tommy10'' \<in> set (the (generate_chinese ''Chan'' ''Tai Man'' ''Tommy'' [] [] ''2001/10/10'' False))"
  by code_simp

text \<open>
  The predicate separates: for the dob 2001/10/15 the string tommy10, the alias followed by
  the padded month, is not built from the tokens and is not returned, while tommy.taiman1015
  is built.
\<close>

lemma month_suffix_not_built_example:
  "\<not> built (cn_names (the (chinese_tokens ''Chan'' ''Tai Man'' ''Tommy'' [] [] ''2001/10/15'')))
          (cn_date_material (the (chinese_tokens ''Chan'' ''Tai Man'' ''Tommy'' [] [] ''2001/10/15'')))
          ''tommy10''
   \<and> built (cn_names (the (chinese_tokens ''Chan'' ''Tai Man'' ''Tommy'' [] [] ''2001/10/15'')))
          (cn_date_material (the (chinese_tokens ''Chan'' ''Tai Man'' ''Tommy'' [] [] ''2001/10/15'')))
          ''tommy.taiman1015''"
  by code_simp

lemma month_suffix_not_returned_example:
  "''tommy10'' \<notin> set (the (generate_chinese ''Chan'' ''Tai Man'' ''Tommy'' [] [] ''2001/10/15'' False))"
  by (simp add: generate_chinese_scenario)

text \<open>
  Claim C6, amended. \<open>parse_dates\<close> computes no component from the month alone. For a dob
  with the three parts \<open>y\<close>, \<open>m\<close>, \<open>d\<close> the month enters only \<open>md\<close>, the padded month
  followed by the padded day, which is never the padded month itself; \<open>yr4\<close>, \<open>yr2\<close> and
  \<open>dy2\<close> are the same for every dob that differs in the month part only. The date suffixes
  of both generators are exactly the non-empty ones of \<open>yr4\<close>, \<open>yr2\<close>, \<open>md\<close>, \<open>dy2\<close>, in
  this order. Every string that a tier of either generator builds, in default and in full
  mode, is name tokens and dots followed by one piece of date material: nothing, an entry of
  that list, the flip \<open>dy2\<close> followed by \<open>yr2\<close>, or, in the Western generator, \<open>md\<close> or
  \<open>dy2\<close> itself. Every returned candidate is such a string with the surrounding white space
  removed, and the name tokens are the same for every year and dob. Hence the padded month
  is the date material of a candidate only when it coincides with the value of \<open>yr4\<close>,
  \<open>yr2\<close>, \<open>dy2\<close> or \<open>dy2\<close> followed by \<open>yr2\<close>.
\<close>

theorem month_only_by_derivation:
  "(\<exists>yr4 yr2 dy2 md tk tk' r r'.
       parse_dates year dob = Some (yr4, yr2, dy2, md)
     \<and> chinese_tokens last' first' alias alias2 year dob = Some tk
     \<and> cn_dates tk = filter (\<lambda>x. x \<noteq> []) [yr4, yr2, md, dy2]
     \<and> cn_date_material tk = [] # (dy2 @ yr2) # cn_dates tk
     \<and> western_tokens first' last' middle alias alias2 year dob = Some tk'
     \<and> en_dates tk' = filter (\<lambda>x. x \<noteq> []) [yr4, yr2, md, dy2]
     \<and> en_date_material tk' = [] # (dy2 @ yr2) # md # dy2 # en_dates tk'
     \<and> (\<forall>x\<in>set (chinese_combos tk full). built (cn_names tk) (cn_date_material tk) x)
     \<and> (\<forall>x\<in>set (western_combos tk' full). built (en_names tk') (en_date_material tk') x)
     \<and> generate_chinese last' first' alias alias2 year dob full = Some r
     \<and> (\<forall>c\<in>set r. \<exists>x\<in>set (chinese_combos tk full). c = strip x)
     \<and> generate_western first' last' middle alias alias2 year dob full = Some r'
     \<and> (\<forall>c\<in>set r'. \<exists>x\<in>set (western_combos tk' full). c = strip x)
     \<and> (\<forall>year' dob' tk2. chinese_tokens last' first' alias alias2 year' dob' = Some tk2 \<longrightarrow>
            cn_names tk2 = cn_names tk)
     \<and> (\<forall>year' dob' tk2. western_tokens first' last' middle alias alias2 year' dob' = Some tk2 \<longrightarrow>
            en_names tk2 = en_names tk')
     \<and> (dob_parts dob = [y, m, d] \<longrightarrow>
          md = zfill 2 m @ zfill 2 d \<and> md \<noteq> zfill 2 m
          \<and> (zfill 2 m \<in> set (cn_date_material tk) \<union> set (en_date_material tk') \<longrightarrow>
                zfill 2 m \<in> {yr4, yr2, dy2, dy2 @ yr2})
          \<and> (\<forall>dob' m'. dob_parts dob' = [y, m', d] \<longrightarrow>
                (\<exists>md'. parse_dates year dob' = Some (yr4, yr2, dy2, md')))))"
proof -
  obtain dt where "parse_dates year dob = Some dt"
    using parse_dates_total by blast
  then obtain yr4 yr2 dy2 md where p: "parse_dates year dob = Some (yr4, yr2, dy2, md)"
    by (cases dt) auto
  obtain tk where tk0: "chinese_tokens last' first' alias alias2 year dob = Some tk"
      "cn_dates tk = date_list (yr4, yr2, dy2, md)" "cn_yr2 tk = yr2" "cn_dy2 tk = dy2"
    using chinese_tokens_date_fields [OF p, of last' first' "alias" alias2] by blast
  obtain tk' where tk0': "western_tokens first' last' middle alias alias2 year dob = Some tk'"
      "en_dates tk' = date_list (yr4, yr2, dy2, md)" "en_yr2 tk' = yr2" "en_dy2 tk' = dy2"
      "en_md tk' = md"
    using western_tokens_date_fields [OF p, of first' last' middle "alias" alias2] by blast
  have c1: "chinese_tokens last' first' alias alias2 year dob = Some tk"
    by (rule tk0(1))
  have c2: "cn_dates tk = filter (\<lambda>x. x \<noteq> []) [yr4, yr2, md, dy2]"
    using tk0(2) by (simp only: date_list.simps)
  have c3: "cn_date_material tk = [] # (dy2 @ yr2) # cn_dates tk"
    using tk0(3,4) by (simp add: cn_date_material_def)
  have w1: "western_tokens first' last' middle alias alias2 year dob = Some tk'"
    by (rule tk0'(1))
  have w2: "en_dates tk' = filter (\<lambda>x. x \<noteq> []) [yr4, yr2, md, dy2]"
    using tk0'(2) by (simp only: date_list.simps)
  have w3: "en_date_material tk' = [] # (dy2 @ yr2) # md # dy2 # en_dates tk'"
    using tk0'(3,4,5) by (simp add: en_date_material_def)
  have c4: "\<forall>x\<in>set (chinese_combos tk full). built (cn_names tk) (cn_date_material tk) x"
    by (rule chinese_combos_built)
  have w4: "\<forall>x\<in>set (western_combos tk' full). built (en_names tk') (en_date_material tk') x"
    by (rule western_combos_built)
  define r where "r = trim (chinese_combos tk full) MAX_LEN_CN"
  define r' where "r' = trim (western_combos tk' full) MAX_LEN_EN"
  have c5: "generate_chinese last' first' alias alias2 year dob full = Some r"
    unfolding r_def by (rule generate_chinese_eq [OF c1])
  have c6: "\<forall>c\<in>set r. \<exists>x\<in>set (chinese_combos tk full). c = strip x"
    unfolding r_def by (blast dest: trim_from_combos)
  have w5: "generate_western first' last' middle alias alias2 year dob full = Some r'"
    unfolding r'_def by (rule generate_western_eq [OF w1])
  have w6: "\<forall>c\<in>set r'. \<exists>x\<in>set (western_combos tk' full). c = strip x"
    unfolding r'_def by (blast dest: trim_from_combos)
  have c7: "\<forall>year' dob' tk2. chinese_tokens last' first' alias alias2 year' dob' = Some tk2 \<longrightarrow>
            cn_names tk2 = cn_names tk"
    using chinese_tokens_names [OF c1] by blast
  have w7: "\<forall>year' dob' tk2.
            western_tokens first' last' middle alias alias2 year' dob' = Some tk2 \<longrightarrow>
            en_names tk2 = en_names tk'"
    using western_tokens_names [OF w1] by blast
  have m: "dob_parts dob = [y, m, d] \<longrightarrow>
          md = zfill 2 m @ zfill 2 d \<and> md \<noteq> zfill 2 m
          \<and> (zfill 2 m \<in> set (cn_date_material tk) \<union> set (en_date_material tk') \<longrightarrow>
                zfill 2 m \<in> {yr4, yr2, dy2, dy2 @ yr2})
          \<and> (\<forall>dob' m'. dob_parts dob' = [y, m', d] \<longrightarrow>
                (\<exists>md'. parse_dates year dob' = Some (yr4, yr2, dy2, md')))"
  proof
    assume parts: "dob_parts dob = [y, m, d]"
    then have ne: "dob \<noteq> []" by (auto simp: dob_parts_Nil)
    have md: "md = zfill 2 m @ zfill 2 d"
      using p parts ne by (auto simp: parse_dates_three)
    then have neq: "md \<noteq> zfill 2 m" by simp
    have nonempty: "zfill 2 m \<noteq> []" by simp
    have mem: "zfill 2 m \<in> set (cn_date_material tk) \<union> set (en_date_material tk') \<longrightarrow>
                zfill 2 m \<in> {yr4, yr2, dy2, dy2 @ yr2}"
      using neq nonempty by (auto simp: c2 c3 w2 w3)
    have indep: "\<forall>dob' m'. dob_parts dob' = [y, m', d] \<longrightarrow>
                (\<exists>md'. parse_dates year dob' = Some (yr4, yr2, dy2, md'))"
    proof (intro allI impI)
      fix dob' m'
      assume parts': "dob_parts dob' = [y, m', d]"
      then have "dob' \<noteq> []" by (auto simp: dob_parts_Nil)
      then show "\<exists>md'. parse_dates year dob' = Some (yr4, yr2, dy2, md')"
        using p parts parts' ne by (auto simp: parse_dates_three)
    qed
    show "md = zfill 2 m @ zfill 2 d \<and> md \<noteq> zfill 2 m
          \<and> (zfill 2 m \<in> set (cn_date_material tk) \<union> set (en_date_material tk') \<longrightarrow>
                zfill 2 m \<in> {yr4, yr2, dy2, dy2 @ yr2})
          \<and> (\<forall>dob' m'. dob_parts dob' = [y, m', d] \<longrightarrow>
                (\<exists>md'. parse_dates year dob' = Some (yr4, yr2, dy2, md')))"
      by (intro conjI md neq mem indep)
  qed
  show ?thesis
    apply (rule exI [of _ yr4], rule exI [of _ yr2], rule exI [of _ dy2], rule exI [of _ md])
    apply (rule exI [of _ tk], rule exI [of _ tk'], rule exI [of _ r], rule exI [of _ r'])
    apply (intro conjI p c1 c2 c3 w1 w2 w3 c4 w4 c5 c6 w5 w6 c7 w7 m)
    done
qed

theorem month_only_by_derivation_witness:
  "dob_parts ''2001/10/15'' = [''2001'', ''10'', ''15'']
   \<and> dob_parts ''2001/07/15'' = [''2001'', ''07'', ''15'']
   \<and> parse_dates [] ''2001/10/15'' = Some (''2001'', ''01'', ''15'', ''1015'')
   \<and> (\<exists>md'. parse_dates [] ''2001/07/15'' = Some (''2001'', ''01'', ''15'', md'))
   \<and> (\<exists>tk x. chinese_tokens ''Chan'' ''Tai Man'' ''Tommy'' [] [] ''2001/10/15'' = Some tk
          \<and> x \<in> set (chinese_combos tk False) \<and> ''tommy1501'' = strip x
          \<and> built (cn_names tk) (cn_date_material tk) x
          \<and> cn_date_material tk = [[], ''1501'', ''2001'', ''01'', ''1015'', ''15''])"
proof -
  have h1: "dob_parts ''2001/10/15'' = [''2001'', ''10'', ''15'']"
    by code_simp
  have h2: "dob_parts ''2001/07/15'' = [''2001'', ''07'', ''15'']"
    by code_simp
  have e: "parse_dates [] ''2001/10/15'' = Some (''2001'', ''01'', ''15'', ''1015'')"
    by code_simp
  obtain yr4 yr2 dy2 md tk r where
    p: "parse_dates [] ''2001/10/15'' = Some (yr4, yr2, dy2, md)"
    and tk: "chinese_tokens ''Chan'' ''Tai Man'' ''Tommy'' [] [] ''2001/10/15'' = Some tk"
    and dates: "cn_dates tk = filter (\<lambda>x. x \<noteq> []) [yr4, yr2, md, dy2]"
    and mat: "cn_date_material tk = [] # (dy2 @ yr2) # cn_dates tk"
    and blt: "\<forall>x\<in>set (chinese_combos tk False). built (cn_names tk) (cn_date_material tk) x"
    and r: "generate_chinese ''Chan'' ''Tai Man'' ''Tommy'' [] [] ''2001/10/15'' False = Some r"
    and from_combos: "\<forall>c\<in>set r. \<exists>x\<in>set (chinese_combos tk False). c = strip x"
    and month: "dob_parts ''2001/10/15'' = [''2001'', ''10'', ''15''] \<longrightarrow>
          md = zfill 2 ''10'' @ zfill 2 ''15'' \<and> md \<noteq> zfill 2 ''10''
          \<and> (\<forall>dob' m'. dob_parts dob' = [''2001'', m', ''15''] \<longrightarrow>
                (\<exists>md'. parse_dates [] dob' = Some (yr4, yr2, dy2, md')))"
    using month_only_by_derivation [of "[]" "''2001/10/15''" "''Chan''" "''Tai Man''" "''Tommy''"
        "[]" "[]" False "''2001''" "''10''" "''15''"]
    by blast
  have "Some (yr4, yr2, dy2, md) = Some (''2001'', ''01'', ''15'', ''1015'')"
    by (rule trans [OF p [symmetric] e])
  then have comps: "yr4 = ''2001''" "yr2 = ''01''" "dy2 = ''15''" "md = ''1015''"
    by simp_all
  have other: "\<exists>md'. parse_dates [] ''2001/07/15'' = Some (''2001'', ''01'', ''15'', md')"
    using month h1 h2 comps by blast
  have material: "cn_date_material tk = [[], ''1501'', ''2001'', ''01'', ''1015'', ''15'']"
    using mat dates comps by simp
  have "r = the (generate_chinese ''Chan'' ''Tai Man'' ''Tommy'' [] [] ''2001/10/15'' False)"
    by (simp add: r)
  then have "''tommy1501'' \<in> set r"
    by (simp add: generate_chinese_scenario)
  then obtain x where x: "x \<in> set (chinese_combos tk False)" "''tommy1501'' = strip x"
    using from_combos by blast
  have "built (cn_names tk) (cn_date_material tk) x"
    using blt x(1) by (rule bspec)
  then have "\<exists>tk x. chinese_tokens ''Chan'' ''Tai Man'' ''Tommy'' [] [] ''2001/10/15'' = Some tk
          \<and> x \<in> set (chinese_combos tk False) \<and> ''tommy1501'' = strip x
          \<and> built (cn_names tk) (cn_date_material tk) x
          \<and> cn_date_material tk = [[], ''1501'', ''2001'', ''01'', ''1015'', ''15'']"
    using tk x material by blast
  then show ?thesis
    using h1 h2 e other by (intro conjI)
qed

end
